theory Spec2Isabelle
  imports Main "HOL-Library.Monad_Syntax"
begin

section \<open>Data model\<close>

text \<open>
  C \<open>int\<close> values are modelled as integers. The buffer sizes, indices and counters of an
  editing session stay far below \<open>2^31\<close>; where a theorem ranges over operands that need
  not (the lines and columns of the cursors, in the cursor comparison and in the new columns
  after a multi-cursor insert) the 32-bit two's complement result is written out with
  \<open>int_wrap\<close>. Flags that the code only tests for truth are \<open>bool\<close>.
\<close>

definition INT_MAX :: int where
  "INT_MAX = 2147483647"

definition int_wrap :: "int \<Rightarrow> int" where
  "int_wrap x = (x + 2147483648) mod 4294967296 - 2147483648"

definition TAB :: char where
  "TAB = CHR 0x09"

definition NUL :: char where
  "NUL = CHR 0x00"

definition LF :: char where
  "LF = CHR 0x0A"

definition CR :: char where
  "CR = CHR 0x0D"

definition MITER_TAB_STOP :: int where
  "MITER_TAB_STOP = 8"

definition MITER_QUIT_TIMES :: int where
  "MITER_QUIT_TIMES = 3"

definition UNDO_GROUP_TIMEOUT_MS :: int where
  "UNDO_GROUP_TIMEOUT_MS = 500"

definition UNDO_MAX_ENTRIES :: int where
  "UNDO_MAX_ENTRIES = 10000"

text \<open>
  A row of the buffer. \<open>chars\<close> is the raw byte sequence (the C field \<open>line_size\<close> is its
  length; the byte at index \<open>line_size\<close> is the terminating NUL), \<open>render\<close> the
  tab-expanded copy that \<open>editor_update_row\<close> regenerates after every change of \<open>chars\<close>.
  Highlighting and wrap breaks are derived display state and are not embedded.
\<close>

record editor_row =
  chars :: string
  render :: string

record timespec =
  tv_sec :: int
  tv_nsec :: int

record selection_pos =
  pos_row :: int
  pos_col :: int

record selection_state =
  active :: bool
  anchor :: selection_pos
  cursor :: selection_pos

record cursor_position =
  line :: int
  column :: int
  has_selection :: int
  anchor_line :: int
  anchor_column :: int

datatype undo_op_type =
    UNDO_CHAR_INSERT
  | UNDO_CHAR_DELETE
  | UNDO_CHAR_DELETE_FWD
  | UNDO_ROW_INSERT
  | UNDO_ROW_DELETE
  | UNDO_ROW_SPLIT
  | UNDO_SELECTION_DELETE
  | UNDO_PASTE

text \<open>The three \<open>char *\<close> payloads are \<open>None\<close> when the pointer is \<open>NULL\<close>.\<close>

record undo_entry =
  group_id :: int
  op_type :: undo_op_type
  cursor_row :: int
  cursor_col :: int
  row_idx :: int
  row_content :: "string option"
  char_pos :: int
  char_data :: "string option"
  end_row :: int
  end_col :: int
  multi_line :: "string option"

record search_result =
  line_number :: int
  match_offset :: int
  match_length :: int

text \<open>
  The global \<open>editor\<close> state, restricted to the fields the editing core reads or writes.
  \<open>row_count\<close>, \<open>cursor_count\<close>, \<open>undo_stack_count\<close> and \<open>search_result_count\<close> are the
  lengths of the corresponding lists; \<open>undo_stack = None\<close> is the \<open>NULL\<close> pointer before the
  first logged edit.

  Two parts of the environment are carried in the state. The monotonic clock: \<open>clock n\<close> is
  the value the \<open>n\<close>-th call of \<open>clock_gettime\<close> returns and \<open>clock_reads\<close> counts the calls
  made. The allocator: \<open>alloc_ok n\<close> tells whether the \<open>n\<close>-th allocation whose result the code
  checks against \<open>NULL\<close> succeeds, and \<open>alloc_calls\<close> counts those. Allocations whose result
  the code uses unchecked are taken to succeed.
\<close>

record editor_config =
  cursor_x :: int
  cursor_y :: int
  row :: "editor_row list"
  dirty :: int
  selection :: selection_state
  undo_group_id :: int
  undo_position :: int
  undo_memory_groups :: int
  undo_logging :: bool
  undo_stack :: "undo_entry list option"
  undo_stack_capacity :: int
  last_edit_time :: timespec
  cursors :: "cursor_position list"
  cursor_capacity :: nat
  cursors_follow_primary :: bool
  allow_primary_overlap :: bool
  search_results :: "search_result list"
  clock :: "nat \<Rightarrow> timespec"
  clock_reads :: nat
  alloc_ok :: "nat \<Rightarrow> bool"
  alloc_calls :: nat

definition row_count :: "editor_config \<Rightarrow> int" where
  "row_count E = int (length (row E))"

definition line_size :: "editor_row \<Rightarrow> int" where
  "line_size r = int (length (chars r))"

text \<open>
  C strings end at the first NUL byte: \<open>strdup\<close>, \<open>strlen\<close> and \<open>strstr\<close> see only
  the bytes before it.
\<close>

definition c_str :: "string \<Rightarrow> string" where
  "c_str s = takeWhile (\<lambda>c. c \<noteq> NUL) s"

definition checked_alloc :: "editor_config \<Rightarrow> bool \<times> editor_config" where
  "checked_alloc E = (alloc_ok E (alloc_calls E), E\<lparr>alloc_calls := Suc (alloc_calls E)\<rparr>)"

text \<open>\<open>isspace\<close> of the C locale, on byte values.\<close>

definition isspace :: "char \<Rightarrow> bool" where
  "isspace c = (c = CHR '' '' \<or> c = TAB \<or> c = LF \<or> c = CHR 0x0B \<or> c = CHR 0x0C \<or> c = CR)"

section \<open>Render mapper\<close>

text \<open>
  Reading \<open>row->chars[i]\<close>: the bytes of the row, then the NUL terminator; any index beyond
  that is outside the allocation (undefined behaviour in C, \<open>None\<close> here).
\<close>

definition chars_at :: "string \<Rightarrow> nat \<Rightarrow> char option" where
  "chars_at cs i = (if i < length cs then Some (cs ! i)
                    else if i = length cs then Some NUL else None)"

text \<open>
  The common loop body \<^verbatim>\<open>if (c == '\t') rx += (TAB_STOP - 1) - (rx % TAB_STOP); rx++;\<close>.
  The column is never negative, so C's \<open>%\<close> and HOL's \<open>mod\<close> agree.
\<close>

definition tab_advance :: "int \<Rightarrow> char \<Rightarrow> int" where
  "tab_advance rx c =
     (if c = TAB then rx + ((MITER_TAB_STOP - 1) - (rx mod MITER_TAB_STOP)) else rx) + 1"

function cursor_to_render_loop :: "string \<Rightarrow> int \<Rightarrow> nat \<Rightarrow> int \<Rightarrow> int option" where
  "cursor_to_render_loop cs cx char_index rx =
     (if int char_index < cx then
        (case chars_at cs char_index of
           None \<Rightarrow> None
         | Some c \<Rightarrow> cursor_to_render_loop cs cx (Suc char_index) (tab_advance rx c))
      else Some rx)"
  by pat_completeness auto
termination
  by (relation "measure (\<lambda>(cs, cx, i, rx). nat (cx - int i))") auto

definition editor_row_cursor_to_render :: "editor_row \<Rightarrow> int \<Rightarrow> int option" where
  "editor_row_cursor_to_render r cx = cursor_to_render_loop (chars r) cx 0 0"

function render_to_cursor_loop :: "string \<Rightarrow> int \<Rightarrow> nat \<Rightarrow> int \<Rightarrow> int" where
  "render_to_cursor_loop cs rx cx cur_rx =
     (if cx < length cs then
        (let cur_rx' = tab_advance cur_rx (cs ! cx)
         in if cur_rx' > rx then int cx else render_to_cursor_loop cs rx (Suc cx) cur_rx')
      else int cx)"
  by pat_completeness auto
termination
  by (relation "measure (\<lambda>(cs, rx, cx, cur). length cs - cx)") auto

definition editor_row_render_to_cursor :: "editor_row \<Rightarrow> int \<Rightarrow> int" where
  "editor_row_render_to_cursor r rx = render_to_cursor_loop (chars r) rx 0 0"

text \<open>
  The render column of cursor column \<open>n\<close> as a fold over the first \<open>n\<close> characters; used
  to state the loop invariants of the two conversions.
\<close>

definition rcol :: "string \<Rightarrow> nat \<Rightarrow> int" where
  "rcol cs n = foldl tab_advance 0 (take n cs)"

text \<open>
  \<open>editor_update_row\<close>: a tab becomes one space and then spaces up to the next multiple of
  \<open>MITER_TAB_STOP\<close> (8); every other byte is copied.
\<close>

function pad_to_tab_stop :: "string \<Rightarrow> string" where
  "pad_to_tab_stop r =
     (if length r mod 8 \<noteq> 0 then pad_to_tab_stop (r @ [CHR '' '']) else r)"
  by pat_completeness auto
termination
proof (relation "measure (\<lambda>r. (8 - length r mod 8) mod 8)")
  show "wf (measure (\<lambda>r::string. (8 - length r mod 8) mod 8))"
    by simp
next
  fix r :: string
  assume nz: "length r mod 8 \<noteq> 0"
  have lt: "length r mod 8 < 8" by simp
  have "(8 - Suc (length r) mod 8) mod 8 < (8 - length r mod 8) mod 8"
  proof (cases "length r mod 8 = 7")
    case True
    then show ?thesis by (simp add: mod_Suc)
  next
    case False
    with nz lt have "(8 - length r mod 8) mod 8 = 8 - length r mod 8"
      and "(7 - length r mod 8) mod 8 = 7 - length r mod 8" by simp_all
    with False nz lt show ?thesis by (simp add: mod_Suc)
  qed
  then show "(r @ [CHR '' ''], r) \<in> measure (\<lambda>r. (8 - length r mod 8) mod 8)"
    by simp
qed

declare pad_to_tab_stop.simps [simp del]

fun render_loop :: "string \<Rightarrow> string \<Rightarrow> string" where
  "render_loop [] r = r"
| "render_loop (c # cs) r =
     (if c = TAB then render_loop cs (pad_to_tab_stop (r @ [CHR '' '']))
      else render_loop cs (r @ [c]))"

definition editor_update_row :: "editor_row \<Rightarrow> editor_row" where
  "editor_update_row r = r\<lparr>render := render_loop (chars r) []\<rparr>"

section \<open>Row store\<close>

text \<open>
  \<open>editor_insert_row(at, string, length)\<close>; the caller's \<open>string\<close> and \<open>length\<close> are
  passed as the list of the \<open>length\<close> bytes copied.
\<close>

definition editor_insert_row :: "int \<Rightarrow> string \<Rightarrow> editor_config \<Rightarrow> editor_config" where
  "editor_insert_row at s E =
     (if at < 0 \<or> at > row_count E then E
      else E\<lparr>row := take (nat at) (row E) @ editor_update_row \<lparr>chars = s, render = []\<rparr>
                         # drop (nat at) (row E),
             dirty := dirty E + 1\<rparr>)"

definition editor_delete_row :: "int \<Rightarrow> editor_config \<Rightarrow> editor_config" where
  "editor_delete_row at E =
     (if at < 0 \<or> at \<ge> row_count E then E
      else E\<lparr>row := take (nat at) (row E) @ drop (Suc (nat at)) (row E),
             dirty := dirty E + 1\<rparr>)"

text \<open>
  The three row primitives take \<open>editor_row *row\<close>; here the row is addressed by its index,
  which every caller has checked to be inside the buffer.
\<close>

definition row_insert_char :: "editor_row \<Rightarrow> int \<Rightarrow> char \<Rightarrow> editor_row" where
  "row_insert_char r at c =
     (let at' = (if at < 0 \<or> at > line_size r then line_size r else at)
      in editor_update_row (r\<lparr>chars := take (nat at') (chars r) @ c # drop (nat at') (chars r)\<rparr>))"

definition editor_row_insert_char :: "nat \<Rightarrow> int \<Rightarrow> char \<Rightarrow> editor_config \<Rightarrow> editor_config" where
  "editor_row_insert_char i at c E =
     E\<lparr>row := (row E)[i := row_insert_char (row E ! i) at c], dirty := dirty E + 1\<rparr>"


definition editor_row_delete_char :: "nat \<Rightarrow> int \<Rightarrow> editor_config \<Rightarrow> editor_config" where
  "editor_row_delete_char i at E =
     (if at < 0 \<or> at \<ge> line_size (row E ! i) then E
      else E\<lparr>row := (row E)[i := editor_update_row
                 ((row E ! i)\<lparr>chars := take (nat at) (chars (row E ! i))
                                        @ drop (Suc (nat at)) (chars (row E ! i))\<rparr>)],
             dirty := dirty E + 1\<rparr>)"

section \<open>Undo log\<close>

definition undo_start_new_group :: "editor_config \<Rightarrow> editor_config" where
  "undo_start_new_group E =
     E\<lparr>undo_group_id := undo_group_id E + 1,
       undo_position := undo_group_id E + 1,
       undo_memory_groups := undo_memory_groups E + 1\<rparr>"

text \<open>C's integer division truncates towards zero.\<close>

definition c_div :: "int \<Rightarrow> int \<Rightarrow> int" where
  "c_div a b = (if 0 \<le> a then a div b else - ((- a) div b))"

definition clock_gettime :: "editor_config \<Rightarrow> timespec \<times> editor_config" where
  "clock_gettime E = (clock E (clock_reads E), E\<lparr>clock_reads := Suc (clock_reads E)\<rparr>)"

definition undo_maybe_start_group :: "bool \<Rightarrow> editor_config \<Rightarrow> editor_config" where
  "undo_maybe_start_group force_new E =
     (if force_new then undo_start_new_group E
      else
        (let (now, E1) = clock_gettime E;
             elapsed_ms = (tv_sec now - tv_sec (last_edit_time E1)) * 1000
                          + c_div (tv_nsec now - tv_nsec (last_edit_time E1)) 1000000;
             E2 = (if elapsed_ms > UNDO_GROUP_TIMEOUT_MS \<or> undo_group_id E1 = 0
                   then E1\<lparr>undo_group_id := undo_group_id E1 + 1,
                           undo_position := undo_group_id E1 + 1,
                           undo_memory_groups := undo_memory_groups E1 + 1\<rparr>
                   else E1)
         in E2\<lparr>last_edit_time := now\<rparr>))"

text \<open>
  The loop of \<open>undo_clear_redo\<close> runs \<open>i\<close> from \<open>undo_stack_count - 1\<close> down to \<open>0\<close> and
  lowers \<open>new_count\<close> to every index whose entry lies above the redo position; the first
  argument is the number of indices still to visit.
\<close>

fun clear_redo_loop :: "nat \<Rightarrow> undo_entry list \<Rightarrow> int \<Rightarrow> nat \<Rightarrow> nat" where
  "clear_redo_loop 0 st pos new_count = new_count"
| "clear_redo_loop (Suc i) st pos new_count =
     clear_redo_loop i st pos (if group_id (st ! i) > pos then i else new_count)"

definition undo_clear_redo :: "editor_config \<Rightarrow> editor_config" where
  "undo_clear_redo E =
     (if undo_position E \<ge> undo_group_id E then E
      else case undo_stack E of
             None \<Rightarrow> E
           | Some st \<Rightarrow>
               E\<lparr>undo_stack :=
                    Some (take (clear_redo_loop (length st) st (undo_position E) (length st)) st),
                 undo_group_id := undo_position E\<rparr>)"

text \<open>
  \<open>undo_log\<close>. When the stack is full and its capacity has reached \<open>UNDO_MAX_ENTRIES\<close>, the
  first \<open>capacity / 4\<close> entries are freed and the rest moved down; otherwise the capacity
  doubles. \<open>strdup\<close> copies the payloads up to their first NUL.
\<close>

definition undo_log ::
  "undo_op_type \<Rightarrow> int \<Rightarrow> int \<Rightarrow> int \<Rightarrow> int \<Rightarrow> string option \<Rightarrow> int \<Rightarrow> int \<Rightarrow> string option
     \<Rightarrow> editor_config \<Rightarrow> editor_config" where
  "undo_log type c_row c_col r_idx c_pos c_data e_row e_col m_line E =
     (if undo_logging E then E
      else
        (let force_new_group = (type = UNDO_ROW_INSERT \<or> type = UNDO_ROW_DELETE \<or>
                                type = UNDO_ROW_SPLIT \<or> type = UNDO_SELECTION_DELETE \<or>
                                type = UNDO_PASTE);
             E1 = undo_clear_redo E;
             E2 = undo_maybe_start_group force_new_group E1;
             (st, cap) = (case undo_stack E2 of
                            None \<Rightarrow> ([], 256)
                          | Some st \<Rightarrow> (st, undo_stack_capacity E2));
             (st', cap') = (if int (length st) \<ge> cap then
                              (if cap \<ge> UNDO_MAX_ENTRIES
                               then (drop (nat (c_div cap 4)) st, cap)
                               else (st, cap * 2))
                            else (st, cap));
             entry = \<lparr>group_id = undo_group_id E2,
                      op_type = type,
                      cursor_row = c_row,
                      cursor_col = c_col,
                      row_idx = r_idx,
                      row_content =
                        (if (type = UNDO_ROW_DELETE \<or> type = UNDO_ROW_INSERT) \<and>
                            r_idx \<ge> 0 \<and> r_idx < row_count E2
                         then Some (c_str (chars (row E2 ! nat r_idx))) else None),
                      char_pos = c_pos,
                      char_data = map_option c_str c_data,
                      end_row = e_row,
                      end_col = e_col,
                      multi_line = map_option c_str m_line\<rparr>
         in E2\<lparr>undo_stack := Some (st' @ [entry]),
                undo_stack_capacity := cap',
                undo_position := undo_group_id E2\<rparr>))"

section \<open>Selection model\<close>

definition selection_clear :: "editor_config \<Rightarrow> editor_config" where
  "selection_clear E = E\<lparr>selection := (selection E)\<lparr>active := False\<rparr>\<rparr>"

definition selection_normalize :: "editor_config \<Rightarrow> selection_pos \<times> selection_pos" where
  "selection_normalize E =
     (let a = anchor (selection E); c = cursor (selection E)
      in if pos_row a < pos_row c \<or> (pos_row a = pos_row c \<and> pos_col a \<le> pos_col c)
         then (a, c) else (c, a))"

text \<open>
  The bytes \<open>chars[a..b)\<close> of a row, as \<open>memcpy\<close> and \<open>memmove\<close> read them; \<open>None\<close> when
  the range is not inside the row (the C code then reads or writes outside the allocation).
\<close>

definition row_slice :: "string \<Rightarrow> int \<Rightarrow> int \<Rightarrow> string option" where
  "row_slice cs a b =
     (if 0 \<le> a \<and> a \<le> b \<and> b \<le> int (length cs)
      then Some (take (nat (b - a)) (drop (nat a) cs)) else None)"

text \<open>
  \<open>selection_get_text\<close> for an active selection: the loop over the rows
  \<open>start.row .. min(end.row, row_count - 1)\<close>. Its two passes (size, then copy) visit the
  same slices, so one pass is embedded.
\<close>

function get_text_loop ::
  "editor_config \<Rightarrow> selection_pos \<Rightarrow> selection_pos \<Rightarrow> int \<Rightarrow> string \<Rightarrow> string option" where
  "get_text_loop E s e r acc =
     (if r \<le> pos_row e \<and> r < row_count E then
        (if r < 0 then None
         else
           (let cs = chars (row E ! nat r);
                line_start = (if r = pos_row s then pos_col s else 0);
                line_end = (if r = pos_row e then pos_col e else int (length cs))
            in case row_slice cs line_start line_end of
                 None \<Rightarrow> None
               | Some t \<Rightarrow>
                   get_text_loop E s e (r + 1) (acc @ t @ (if r < pos_row e then [LF] else []))))
      else Some acc)"
  by pat_completeness auto
termination
  by (relation "measure (\<lambda>(E, s, e, r, acc). nat (row_count E - r))") auto

declare get_text_loop.simps [simp del]

definition selection_get_text :: "editor_config \<Rightarrow> string option" where
  "selection_get_text E =
     (let (start, end) = selection_normalize E
      in get_text_loop E start end (pos_row start) [])"

text \<open>
  The loop \<^verbatim>\<open>for (r = end.row; r > start.row; r--) editor_delete_row(r)\<close>; the first
  argument is \<open>r - start.row\<close>.
\<close>

fun delete_rows_down :: "nat \<Rightarrow> int \<Rightarrow> editor_config \<Rightarrow> editor_config" where
  "delete_rows_down 0 start_row E = E"
| "delete_rows_down (Suc n) start_row E =
     delete_rows_down n start_row (editor_delete_row (start_row + int (Suc n)) E)"

definition selection_delete :: "editor_config \<Rightarrow> editor_config option" where
  "selection_delete E =
     (if \<not> active (selection E) then Some E
      else
        (let (start, end) = selection_normalize E
         in case selection_get_text E of
              None \<Rightarrow> None
            | Some selected_text \<Rightarrow>
                (let E1 = (if \<not> undo_logging E
                           then undo_log UNDO_SELECTION_DELETE (pos_row start) (pos_col start)
                                  (pos_row start) (pos_col start) None
                                  (pos_row end) (pos_col end) (Some selected_text) E
                           else E);
                     E2 = E1\<lparr>cursor_y := pos_row start, cursor_x := pos_col start\<rparr>
                 in if pos_row start < 0 \<or> pos_row end \<ge> row_count E2 then None
                    else if pos_row start = pos_row end then
                      (let i = nat (pos_row start); cs = chars (row E2 ! i)
                       in if 0 \<le> pos_col start \<and> pos_col end \<le> int (length cs) then
                            Some (selection_clear
                              (E2\<lparr>row := (row E2)[i := editor_update_row
                                       ((row E2 ! i)\<lparr>chars := take (nat (pos_col start)) cs
                                                               @ drop (nat (pos_col end)) cs\<rparr>)],
                                   dirty := dirty E2 + 1\<rparr>))
                          else None)
                    else
                      (let i = nat (pos_row start);
                           first = chars (row E2 ! i);
                           last = chars (row E2 ! nat (pos_row end))
                       in if 0 \<le> pos_col start \<and> pos_col start \<le> int (length first) \<and>
                             0 \<le> pos_col end \<and> pos_col end \<le> int (length last) then
                            (let E3 = E2\<lparr>row := (row E2)[i := editor_update_row
                                        ((row E2 ! i)\<lparr>chars := take (nat (pos_col start)) first
                                                                @ drop (nat (pos_col end)) last\<rparr>)]\<rparr>;
                                 E4 = delete_rows_down (nat (pos_row end - pos_row start))
                                        (pos_row start) E3
                             in Some (selection_clear (E4\<lparr>dirty := dirty E4 + 1\<rparr>)))
                          else None))))"

section \<open>Cursor set\<close>

text \<open>
  \<open>multicursor_add\<close>: the position is refused when the primary cursor or a secondary cursor
  stands there; the array grows (doubling, from 4) when it is full, and the function gives
  up with 0 when \<open>realloc\<close> fails.
\<close>

fun cursor_at_position :: "cursor_position list \<Rightarrow> int \<Rightarrow> int \<Rightarrow> bool" where
  "cursor_at_position [] ln col = False"
| "cursor_at_position (c # cs) ln col =
     (if line c = ln \<and> column c = col then True else cursor_at_position cs ln col)"

definition multicursor_add :: "int \<Rightarrow> int \<Rightarrow> editor_config \<Rightarrow> int \<times> editor_config" where
  "multicursor_add ln col E =
     (if cursor_y E = ln \<and> cursor_x E = col then (0, E)
      else if cursor_at_position (cursors E) ln col then (0, E)
      else
        (let new_cursor = \<lparr>line = ln, column = col, has_selection = 0,
                            anchor_line = 0, anchor_column = 0\<rparr>
         in if length (cursors E) \<ge> cursor_capacity E then
              (let (ok, E1) = checked_alloc E
               in if \<not> ok then (0, E1)
                  else (1, E1\<lparr>cursors := cursors E1 @ [new_cursor],
                              cursor_capacity := (if cursor_capacity E1 = 0 then 4
                                                  else cursor_capacity E1 * 2)\<rparr>))
            else (1, E\<lparr>cursors := cursors E @ [new_cursor]\<rparr>)))"

text \<open>
  The comparison functions return the difference of the lines, or of the columns, computed
  in \<open>int\<close>; the reverse one negates it.
\<close>

definition cursor_cmp_forward :: "cursor_position \<Rightarrow> cursor_position \<Rightarrow> int" where
  "cursor_cmp_forward ca cb =
     (if line ca \<noteq> line cb then int_wrap (line ca - line cb)
      else int_wrap (column ca - column cb))"

definition cursor_cmp_reverse :: "cursor_position \<Rightarrow> cursor_position \<Rightarrow> int" where
  "cursor_cmp_reverse a b = int_wrap (- cursor_cmp_forward a b)"

text \<open>
  The C library's \<open>qsort\<close> orders the array by the comparison function and leaves the
  order of elements that compare equal unspecified; this sort keeps them in their original
  order. For lines and columns between 0 and \<open>INT_MAX\<close> no difference wraps, the comparison
  is the document order, two cursors compare equal exactly when they share \<open>line\<close> and
  \<open>column\<close>, and the embedded code reads no other field of a sorted cursor, so the choice
  is not observable. Outside that range the differences can wrap and the comparison is no
  longer an order; what is proved of a sorted array is proved inside the range.
\<close>

fun cursor_sort_insert ::
  "(cursor_position \<Rightarrow> cursor_position \<Rightarrow> int) \<Rightarrow> cursor_position \<Rightarrow> cursor_position list
     \<Rightarrow> cursor_position list" where
  "cursor_sort_insert cmp x [] = [x]"
| "cursor_sort_insert cmp x (y # ys) =
     (if cmp x y \<le> 0 then x # y # ys else y # cursor_sort_insert cmp x ys)"

fun cursor_sort ::
  "(cursor_position \<Rightarrow> cursor_position \<Rightarrow> int) \<Rightarrow> cursor_position list
     \<Rightarrow> cursor_position list" where
  "cursor_sort cmp [] = []"
| "cursor_sort cmp (x # xs) = cursor_sort_insert cmp x (cursor_sort cmp xs)"

definition primary_cursor :: "editor_config \<Rightarrow> cursor_position" where
  "primary_cursor E =
     \<lparr>line = cursor_y E, column = cursor_x E,
      has_selection = (if active (selection E) then 1 else 0),
      anchor_line = pos_row (anchor (selection E)),
      anchor_column = pos_col (anchor (selection E))\<rparr>"

definition multicursor_collect_all ::
  "bool \<Rightarrow> editor_config \<Rightarrow> cursor_position list option \<times> editor_config" where
  "multicursor_collect_all reverse E =
     (let (ok, E1) = checked_alloc E
      in if \<not> ok then (None, E1)
         else (Some (cursor_sort (if reverse then cursor_cmp_reverse else cursor_cmp_forward)
                       (primary_cursor E1 # cursors E1)), E1))"

text \<open>
  \<open>multicursor_remove_duplicates\<close>. First pass: secondaries on the primary position are
  dropped, except the first one when \<open>allow_primary_overlap\<close> is set. Second pass, after
  sorting: a cursor equal in position to the last one kept is dropped.
\<close>

fun drop_primary_overlap ::
  "int \<Rightarrow> int \<Rightarrow> bool \<Rightarrow> bool \<Rightarrow> cursor_position list \<Rightarrow> cursor_position list" where
  "drop_primary_overlap cy cx allow kept [] = []"
| "drop_primary_overlap cy cx allow kept (cur # cs) =
     (if line cur = cy \<and> column cur = cx then
        (if allow \<and> \<not> kept then cur # drop_primary_overlap cy cx allow True cs
         else drop_primary_overlap cy cx allow kept cs)
      else cur # drop_primary_overlap cy cx allow kept cs)"

fun collapse_adjacent :: "cursor_position \<Rightarrow> cursor_position list \<Rightarrow> cursor_position list" where
  "collapse_adjacent prev [] = []"
| "collapse_adjacent prev (cur # cs) =
     (if line cur = line prev \<and> column cur = column prev then collapse_adjacent prev cs
      else cur # collapse_adjacent cur cs)"

definition multicursor_remove_duplicates :: "editor_config \<Rightarrow> editor_config" where
  "multicursor_remove_duplicates E =
     (if cursors E = [] then E
      else
        (let cs1 = drop_primary_overlap (cursor_y E) (cursor_x E) (allow_primary_overlap E)
                     False (cursors E)
         in if length cs1 \<le> 1 then E\<lparr>cursors := cs1\<rparr>
            else
              (case cursor_sort cursor_cmp_forward cs1 of
                 [] \<Rightarrow> E\<lparr>cursors := []\<rparr>
               | c # cs \<Rightarrow> E\<lparr>cursors := c # collapse_adjacent c cs\<rparr>)))"

section \<open>Multi-cursor character insert\<close>

definition editor_insert_char_at :: "int \<Rightarrow> int \<Rightarrow> char \<Rightarrow> editor_config \<Rightarrow> editor_config" where
  "editor_insert_char_at ln col character E =
     (if ln < 0 \<or> ln > row_count E then E
      else
        (let E1 = (if ln = row_count E then editor_insert_row (row_count E) [] E else E);
             E2 = editor_row_insert_char (nat ln) col character E1
         in E2\<lparr>dirty := dirty E2 + 1\<rparr>))"

definition editor_line_starts_with_closing_brace :: "editor_row \<Rightarrow> bool" where
  "editor_line_starts_with_closing_brace r =
     (case dropWhile isspace (chars r) of [] \<Rightarrow> False | c # _ \<Rightarrow> c = CHR ''}'')"

text \<open>
  \<open>unindent_line_apply\<close> removes up to four leading spaces and returns the negated number
  removed, together with the new state.
\<close>

definition unindent_line_apply :: "int \<Rightarrow> editor_config \<Rightarrow> int \<times> editor_config" where
  "unindent_line_apply ln E =
     (if ln < 0 \<or> ln \<ge> row_count E then (0, E)
      else
        (let i = nat ln; cs = chars (row E ! i);
             spaces_to_remove = length (takeWhile (\<lambda>c. c = CHR '' '') (take 4 cs))
         in if spaces_to_remove = 0 then (0, E)
            else (- int spaces_to_remove,
                  E\<lparr>row := (row E)[i := editor_update_row
                             ((row E ! i)\<lparr>chars := drop spaces_to_remove cs\<rparr>)],
                    dirty := dirty E + 1\<rparr>)))"

definition editor_auto_unindent_closing_brace :: "int \<Rightarrow> editor_config \<Rightarrow> int \<times> editor_config" where
  "editor_auto_unindent_closing_brace ln E =
     (if ln < 0 \<or> ln \<ge> row_count E then (0, E)
      else if \<not> editor_line_starts_with_closing_brace (row E ! nat ln) then (0, E)
      else unindent_line_apply ln E)"

text \<open>
  The three loops of \<open>multicursor_insert_char\<close> after the snapshot of the original
  positions: the inserts, in the order of the reverse-sorted array; the auto-unindent pass
  for \<open>'}'\<close> (once per line, shifting the working copy of the cursors); and the new column
  of every cursor, computed from the original positions alone.
\<close>

definition insert_at_cursor :: "char \<Rightarrow> cursor_position \<Rightarrow> editor_config \<Rightarrow> editor_config" where
  "insert_at_cursor character c E =
     editor_insert_char_at (line c) (column c) character
       (undo_log UNDO_CHAR_INSERT (line c) (column c) (line c) (column c)
          (Some [character]) 0 0 None E)"

definition unindent_step ::
  "nat \<Rightarrow> editor_config \<times> cursor_position list \<Rightarrow> editor_config \<times> cursor_position list" where
  "unindent_step i = (\<lambda>(E, all_cursors).
     (let ln = line (all_cursors ! i)
      in if list_ex (\<lambda>j. line (all_cursors ! j) = ln) [0..<i] then (E, all_cursors)
         else
           (let (removed, E1) = editor_auto_unindent_closing_brace ln E
            in if removed < 0 then
                 (E1, map (\<lambda>c. if line c = ln
                                then c\<lparr>column := (if column c \<ge> - removed
                                                   then column c - (- removed) else 0)\<rparr>
                                else c) all_cursors)
               else (E1, all_cursors))))"

definition insertions_before :: "cursor_position list \<Rightarrow> cursor_position \<Rightarrow> nat" where
  "insertions_before orig_positions p =
     length (filter (\<lambda>q. line q = line p \<and> column q \<le> column p) orig_positions)"

text \<open>
  The new column is \<open>orig_positions[i].column + (int)insertions_before\<close>: the count is
  converted to \<open>int\<close> and the sum is an \<open>int\<close>.
\<close>

definition rebased_columns ::
  "cursor_position list \<Rightarrow> cursor_position list \<Rightarrow> cursor_position list" where
  "rebased_columns orig_positions all_cursors =
     map (\<lambda>i. (all_cursors ! i)\<lparr>column :=
                   int_wrap (column (orig_positions ! i)
                             + int_wrap (int (insertions_before orig_positions
                                                (orig_positions ! i))))\<rparr>)
         [0..<length orig_positions]"

text \<open>
  Restoring a cursor: the first index whose original position is the cursor's position
  gives the new column.
\<close>

fun lookup_position ::
  "cursor_position list \<Rightarrow> cursor_position list \<Rightarrow> int \<Rightarrow> int \<Rightarrow> cursor_position option" where
  "lookup_position (p # ps) (a # as) ln col =
     (if line p = ln \<and> column p = col then Some a else lookup_position ps as ln col)"
| "lookup_position _ _ ln col = None"

definition restore_primary_column ::
  "cursor_position list \<Rightarrow> cursor_position list \<Rightarrow> editor_config \<Rightarrow> editor_config" where
  "restore_primary_column orig_positions all_cursors E =
     (case lookup_position orig_positions all_cursors (cursor_y E) (cursor_x E) of
        None \<Rightarrow> E
      | Some a \<Rightarrow> E\<lparr>cursor_x := column a\<rparr>)"

definition restore_secondary_columns ::
  "cursor_position list \<Rightarrow> cursor_position list \<Rightarrow> editor_config \<Rightarrow> editor_config" where
  "restore_secondary_columns orig_positions all_cursors E =
     E\<lparr>cursors := map (\<lambda>c. case lookup_position orig_positions all_cursors (line c) (column c) of
                               None \<Rightarrow> c
                             | Some a \<Rightarrow> c\<lparr>column := column a\<rparr>) (cursors E)\<rparr>"

definition multicursor_insert_char :: "char \<Rightarrow> editor_config \<Rightarrow> editor_config option" where
  "multicursor_insert_char character E =
     (if cursors E = [] then Some E
      else
        (case (if active (selection E) then selection_delete E else Some E) of
           None \<Rightarrow> None
         | Some E0 \<Rightarrow>
             (case multicursor_collect_all True E0 of
                (None, Ea) \<Rightarrow> Some Ea
              | (Some all_cursors, Ea) \<Rightarrow>
                  (let (ok, Eb) = checked_alloc Ea
                   in if \<not> ok then Some Eb
                      else
                        (let orig_positions = all_cursors;
                             E1 = undo_start_new_group Eb;
                             E2 = fold (insert_at_cursor character) all_cursors E1;
                             (E3, all_cursors3) =
                               (if character = CHR ''}''
                                then fold unindent_step [0..<length all_cursors] (E2, all_cursors)
                                else (E2, all_cursors));
                             all_cursors4 = rebased_columns orig_positions all_cursors3;
                             E4 = restore_primary_column orig_positions all_cursors4 E3;
                             E5 = restore_secondary_columns orig_positions all_cursors4 E4
                         in Some (multicursor_remove_duplicates E5))))))"

section \<open>Multi-cursor insert: the statement of the rebasing rule\<close>

text \<open>
  All cursors of a state, the primary first; and the conditions of the data model on them:
  a cursor stands in a row at a column up to the row's length, or at column 0 of the line
  one past the last row.
\<close>

definition all_positions :: "editor_config \<Rightarrow> cursor_position list" where
  "all_positions E = primary_cursor E # cursors E"

definition cursor_in_bounds :: "string list \<Rightarrow> cursor_position \<Rightarrow> bool" where
  "cursor_in_bounds css c =
     (0 \<le> line c \<and> 0 \<le> column c \<and>
      (if line c < int (length css) then column c \<le> int (length (css ! nat (line c)))
       else line c = int (length css) \<and> column c = 0))"

definition cursors_in_bounds :: "editor_config \<Rightarrow> bool" where
  "cursors_in_bounds E = list_all (cursor_in_bounds (map chars (row E))) (all_positions E)"

definition distinct_positions :: "cursor_position list \<Rightarrow> bool" where
  "distinct_positions ps = distinct (map (\<lambda>c. (line c, column c)) ps)"

text \<open>
  The rule of the specification for one cursor: the new column is the original column plus
  the number of original cursors on the same line whose column is not larger.
\<close>

definition rebase_column :: "cursor_position list \<Rightarrow> cursor_position \<Rightarrow> cursor_position" where
  "rebase_column ps c =
     c\<lparr>column := column c
                  + int (length (filter (\<lambda>q. line q = line c \<and> column q \<le> column c) ps))\<rparr>"

text \<open>
  ``The character is inserted once at each cursor position'': reading a row from left to
  right, before the character at index \<open>i\<close> (and at the end of the row, for \<open>i\<close> the row's
  length) there are as many copies of the character as there are cursors at column \<open>i\<close>.
  The first argument is the index of the head of the remaining row.
\<close>

fun spec_insert :: "nat \<Rightarrow> string \<Rightarrow> nat list \<Rightarrow> char \<Rightarrow> string" where
  "spec_insert i [] cols ch = replicate (count_list cols i) ch"
| "spec_insert i (x # xs) cols ch =
     replicate (count_list cols i) ch @ x # spec_insert (Suc i) xs cols ch"

definition columns_on :: "cursor_position list \<Rightarrow> nat \<Rightarrow> nat list" where
  "columns_on ps l = map (\<lambda>c. nat (column c)) (filter (\<lambda>c. line c = int l) ps)"

text \<open>
  The rows after the insert: a cursor on the line one past the last row makes that row
  exist (empty before the insert).
\<close>

definition pad_rows :: "string list \<Rightarrow> cursor_position list \<Rightarrow> string list" where
  "pad_rows css ps = (if list_ex (\<lambda>c. line c = int (length css)) ps then css @ [[]] else css)"

definition spec_insert_rows :: "string list \<Rightarrow> cursor_position list \<Rightarrow> char \<Rightarrow> string list" where
  "spec_insert_rows css ps ch =
     map (\<lambda>l. spec_insert 0 (pad_rows css ps ! l) (columns_on ps l) ch)
         [0..<length (pad_rows css ps)]"

text \<open>
  The insert of one cursor on the raw rows alone: what \<open>editor_insert_char_at\<close> does to the
  \<open>chars\<close> of the buffer.
\<close>

definition chars_insert_at :: "char \<Rightarrow> cursor_position \<Rightarrow> string list \<Rightarrow> string list" where
  "chars_insert_at ch c css =
     (if line c < 0 \<or> line c > int (length css) then css
      else
        (let css1 = (if line c = int (length css) then css @ [[]] else css);
             l = nat (line c);
             cs = css1 ! l;
             at = (if column c < 0 \<or> column c > int (length cs) then int (length cs) else column c)
         in css1[l := take (nat at) cs @ ch # drop (nat at) cs]))"

text \<open>Descending document order: later lines first, and on a line larger columns first.\<close>

definition sorted_desc :: "cursor_position list \<Rightarrow> bool" where
  "sorted_desc cs =
     sorted_wrt (\<lambda>a b. line b < line a \<or> (line b = line a \<and> column b \<le> column a)) cs"

text \<open>
  Cursors whose lines and columns, before and after the insert, are values of a non-negative
  \<open>int\<close>: then neither the comparison of two cursors nor the sum for a new column wraps.
\<close>

definition positions_in_int_range :: "cursor_position list \<Rightarrow> bool" where
  "positions_in_int_range ps =
     list_all (\<lambda>c. 0 \<le> line c \<and> line c \<le> INT_MAX \<and> 0 \<le> column c \<and>
                    column (rebase_column ps c) \<le> INT_MAX) ps"

text \<open>The rule's column as the code stores it, in an \<open>int\<close>.\<close>

definition rebase_column_int :: "cursor_position list \<Rightarrow> cursor_position \<Rightarrow> cursor_position" where
  "rebase_column_int ps c = c\<lparr>column := int_wrap (column (rebase_column ps c))\<rparr>"

text \<open>A cursor inside an existing row, at a column up to the row's length.\<close>

definition in_rows :: "string list \<Rightarrow> cursor_position \<Rightarrow> bool" where
  "in_rows css c \<longleftrightarrow>
     0 \<le> line c \<and> line c < int (length css) \<and> 0 \<le> column c \<and>
     column c \<le> int (length (css ! nat (line c)))"

section \<open>Editing operations\<close>

text \<open>
  \<open>editor_insert_char\<close>. The \<open>int character\<close> of the C code is stored into the row as a
  \<open>char\<close>; it is a byte here.
\<close>

definition editor_insert_char :: "char \<Rightarrow> editor_config \<Rightarrow> editor_config option" where
  "editor_insert_char character E =
     (if cursors E \<noteq> [] then multicursor_insert_char character E
      else
        (case (if active (selection E) then selection_delete E else Some E) of
           None \<Rightarrow> None
         | Some E0 \<Rightarrow>
             (let E1 = (if cursor_y E0 = row_count E0
                        then editor_insert_row (row_count E0) [] E0 else E0);
                  E2 = undo_log UNDO_CHAR_INSERT (cursor_y E1) (cursor_x E1)
                         (cursor_y E1) (cursor_x E1) (Some [character]) 0 0 None E1
              in if cursor_y E2 < 0 \<or> cursor_y E2 \<ge> row_count E2 then None
                 else
                   (let E3 = editor_row_insert_char (nat (cursor_y E2)) (cursor_x E2) character E2;
                        E4 = E3\<lparr>cursor_x := cursor_x E3 + 1\<rparr>
                    in if character = CHR ''}'' then
                         (let (removed, E5) = editor_auto_unindent_closing_brace (cursor_y E4) E4
                          in if removed < 0 then
                               Some (E5\<lparr>cursor_x := (if cursor_x E5 \<ge> - removed
                                                       then cursor_x E5 - (- removed) else 0)\<rparr>)
                             else Some E5)
                       else Some E4))))"

definition editor_line_indentation :: "editor_row \<Rightarrow> int" where
  "editor_line_indentation r = int (length (takeWhile (\<lambda>c. c = CHR '' '' \<or> c = TAB) (chars r)))"

definition editor_line_ends_with_opening_brace :: "editor_row \<Rightarrow> bool" where
  "editor_line_ends_with_opening_brace r =
     (case dropWhile isspace (rev (chars r)) of [] \<Rightarrow> False | c # _ \<Rightarrow> c = CHR ''{'')"

text \<open>
  Inserting the indentation: the loop
  \<^verbatim>\<open>for (i = 0; i < total_indent; i++) editor_row_insert_char(new_row, i, buf[i])\<close>.
\<close>

definition insert_indent :: "nat \<Rightarrow> string \<Rightarrow> editor_config \<Rightarrow> editor_config" where
  "insert_indent new_line indent E =
     fold (\<lambda>i. editor_row_insert_char new_line (int i) (indent ! i)) [0..<length indent] E"

text \<open>
  \<open>editor_insert_newline_at\<close> returns the number of indentation characters it added.
  Splitting reads \<open>chars[col .. line_size)\<close>, which is outside the row when \<open>col\<close> is.
\<close>

definition split_row :: "nat \<Rightarrow> int \<Rightarrow> editor_config \<Rightarrow> editor_config option" where
  "split_row i col E =
     (let cs = chars (row E ! i)
      in if col < 0 \<or> col > int (length cs) then None
         else
           (let E1 = editor_insert_row (int i + 1) (drop (nat col) cs) E
            in Some (E1\<lparr>row := (row E1)[i := editor_update_row
                                    ((row E1 ! i)\<lparr>chars := take (nat col) cs\<rparr>)]\<rparr>)))"

definition editor_insert_newline_at ::
  "int \<Rightarrow> int \<Rightarrow> editor_config \<Rightarrow> (int \<times> editor_config) option" where
  "editor_insert_newline_at ln col E =
     (if ln < 0 \<or> ln > row_count E then Some (0, E)
      else if ln = row_count E then Some (0, editor_insert_row (row_count E) [] E)
      else
        (let current = row E ! nat ln;
             base_indent = editor_line_indentation current;
             extra_indent = (if editor_line_ends_with_opening_brace current then 4 else 0)
         in case (if col = 0 then Some (editor_insert_row ln [] E)
                  else split_row (nat ln) col E) of
              None \<Rightarrow> None
            | Some E1 \<Rightarrow>
                (let total_indent = base_indent + extra_indent;
                     E2 = (if total_indent > 0
                           then insert_indent (nat (ln + 1)) (replicate (nat total_indent) CHR '' '') E1
                           else E1)
                 in Some (total_indent, E2\<lparr>dirty := dirty E2 + 1\<rparr>))))"

definition newline_at_cursor :: "cursor_position \<Rightarrow> editor_config option \<Rightarrow> editor_config option" where
  "newline_at_cursor c Eo =
     (case Eo of
        None \<Rightarrow> None
      | Some E \<Rightarrow>
          (let E1 = (if column c = 0
                     then undo_log UNDO_ROW_INSERT (line c) (column c) (line c) 0 None 0 0 None E
                     else undo_log UNDO_ROW_SPLIT (line c) (column c) (line c) (column c)
                            None 0 0 None E)
           in map_option snd (editor_insert_newline_at (line c) (column c) E1)))"

definition newline_positions ::
  "cursor_position list \<Rightarrow> int list \<Rightarrow> cursor_position list \<Rightarrow> cursor_position list" where
  "newline_positions orig_positions new_indents all_cursors =
     map (\<lambda>i. (all_cursors ! i)
                 \<lparr>line := line (orig_positions ! i) + 1
                            + int (length (filter
                                (\<lambda>q. line q < line (orig_positions ! i) \<or>
                                     (line q = line (orig_positions ! i) \<and>
                                      column q < column (orig_positions ! i)))
                                orig_positions)),
                  column := new_indents ! i\<rparr>)
         [0..<length orig_positions]"

definition restore_primary ::
  "cursor_position list \<Rightarrow> cursor_position list \<Rightarrow> editor_config \<Rightarrow> editor_config" where
  "restore_primary orig_positions all_cursors E =
     (case lookup_position orig_positions all_cursors (cursor_y E) (cursor_x E) of
        None \<Rightarrow> E
      | Some a \<Rightarrow> E\<lparr>cursor_y := line a, cursor_x := column a\<rparr>)"

definition restore_secondaries ::
  "cursor_position list \<Rightarrow> cursor_position list \<Rightarrow> editor_config \<Rightarrow> editor_config" where
  "restore_secondaries orig_positions all_cursors E =
     E\<lparr>cursors := map (\<lambda>c. case lookup_position orig_positions all_cursors (line c) (column c) of
                               None \<Rightarrow> c
                             | Some a \<Rightarrow> c\<lparr>line := line a, column := column a\<rparr>) (cursors E)\<rparr>"

definition multicursor_insert_newline :: "editor_config \<Rightarrow> editor_config option" where
  "multicursor_insert_newline E =
     (if cursors E = [] then Some E
      else
        (case (if active (selection E) then selection_delete E else Some E) of
           None \<Rightarrow> None
         | Some E0 \<Rightarrow>
             (case multicursor_collect_all True E0 of
                (None, Ea) \<Rightarrow> Some Ea
              | (Some all_cursors, Ea) \<Rightarrow>
                  (let (ok1, Eb) = checked_alloc Ea
                   in if \<not> ok1 then Some Eb
                      else
                        (let (ok2, Ec) = checked_alloc Eb
                         in if \<not> ok2 then Some Ec
                            else if list_ex (\<lambda>p. line p < 0) all_cursors then None
                            else
                              (let orig_positions = all_cursors;
                                   new_indents =
                                     map (\<lambda>p. if line p \<ge> row_count Ec then 0
                                               else editor_line_indentation (row Ec ! nat (line p))
                                                    + (if editor_line_ends_with_opening_brace
                                                            (row Ec ! nat (line p))
                                                       then 4 else 0))
                                         orig_positions;
                                   E1 = undo_start_new_group Ec
                               in case fold newline_at_cursor all_cursors (Some E1) of
                                    None \<Rightarrow> None
                                  | Some E2 \<Rightarrow>
                                      (let all_cursors4 =
                                             newline_positions orig_positions new_indents all_cursors;
                                           E3 = restore_primary orig_positions all_cursors4 E2;
                                           E4 = restore_secondaries orig_positions all_cursors4 E3
                                       in Some (multicursor_remove_duplicates E4))))))))"

text \<open>
  \<open>editor_insert_newline\<close> (single cursor). The indentation buffer holds at most the first
  251 leading blanks of the current row (\<open>sizeof(indent_buf) - 5\<close>).
\<close>

function brace_check_pos :: "string \<Rightarrow> nat \<Rightarrow> nat option" where
  "brace_check_pos cs check_pos =
     (if check_pos > 0 then
        (case chars_at cs check_pos of
           None \<Rightarrow> None
         | Some c \<Rightarrow> if isspace c then brace_check_pos cs (check_pos - 1) else Some check_pos)
      else Some check_pos)"
  by pat_completeness auto
termination
  by (relation "measure (\<lambda>(cs, p). p)") auto

declare brace_check_pos.simps [simp del]

definition editor_insert_newline :: "editor_config \<Rightarrow> editor_config option" where
  "editor_insert_newline E =
     (if cursors E \<noteq> [] then multicursor_insert_newline E
      else
        (case (if active (selection E) then selection_delete E else Some E) of
           None \<Rightarrow> None
         | Some E0 \<Rightarrow>
             (case (if cursor_y E0 < row_count E0 then
                      (if cursor_y E0 < 0 then None
                       else
                         (let cs = chars (row E0 ! nat (cursor_y E0));
                              indent_buf = takeWhile (\<lambda>c. c = CHR '' '' \<or> c = TAB) (take 251 cs)
                          in case brace_check_pos cs
                                    (nat (if cursor_x E0 > 0 then cursor_x E0 - 1 else 0)) of
                               None \<Rightarrow> None
                             | Some check_pos \<Rightarrow>
                                 (case chars_at cs check_pos of
                                    None \<Rightarrow> None
                                  | Some c \<Rightarrow>
                                      Some (indent_buf,
                                            (if c = CHR ''{'' then 4 else 0 :: nat)))))
                    else Some ([], 0)) of
                None \<Rightarrow> None
              | Some (indent_buf, extra_indent) \<Rightarrow>
                  (case (if cursor_x E0 = 0 then
                           Some (editor_insert_row (cursor_y E0) []
                                   (undo_log UNDO_ROW_INSERT (cursor_y E0) (cursor_x E0)
                                      (cursor_y E0) 0 None 0 0 None E0))
                         else
                           (let E1 = undo_log UNDO_ROW_SPLIT (cursor_y E0) (cursor_x E0)
                                       (cursor_y E0) (cursor_x E0) None 0 0 None E0
                            in if cursor_y E1 < 0 \<or> cursor_y E1 \<ge> row_count E1 then None
                               else split_row (nat (cursor_y E1)) (cursor_x E1) E1)) of
                     None \<Rightarrow> None
                   | Some E2 \<Rightarrow>
                       (let E3 = E2\<lparr>cursor_y := cursor_y E2 + 1, cursor_x := 0\<rparr>
                        in if indent_buf \<noteq> [] \<or> extra_indent > 0 then
                             (if cursor_y E3 < 0 \<or> cursor_y E3 \<ge> row_count E3 then None
                              else
                                (let indent = indent_buf @ replicate extra_indent CHR '' '';
                                     E4 = insert_indent (nat (cursor_y E3)) indent E3
                                 in Some (E4\<lparr>cursor_x := int (length indent)\<rparr>)))
                           else Some E3)))))"



section \<open>Backspace\<close>






section \<open>Undo and redo\<close>

text \<open>
  Re-inserting a multi-line payload character by character, as the \<open>UNDO_SELECTION_DELETE\<close>
  case of \<open>editor_undo\<close> and the \<open>UNDO_PASTE\<close> case of \<open>editor_redo\<close> do.
\<close>

definition insert_payload_char :: "char \<Rightarrow> editor_config option \<Rightarrow> editor_config option" where
  "insert_payload_char p Eo =
     (case Eo of
        None \<Rightarrow> None
      | Some E \<Rightarrow> if p = LF then editor_insert_newline E else editor_insert_char p E)"

definition insert_payload :: "string \<Rightarrow> editor_config \<Rightarrow> editor_config option" where
  "insert_payload text E = fold insert_payload_char text (Some E)"

definition select_range :: "int \<Rightarrow> int \<Rightarrow> int \<Rightarrow> int \<Rightarrow> editor_config \<Rightarrow> editor_config" where
  "select_range r c er ec E =
     E\<lparr>selection := (selection E)\<lparr>active := True,
                                    anchor := \<lparr>pos_row = r, pos_col = c\<rparr>,
                                    cursor := \<lparr>pos_row = er, pos_col = ec\<rparr>\<rparr>\<rparr>"

text \<open>
  Putting a character back into a row at \<open>char_pos\<close> (\<open>memmove\<close> by hand, without the clamp
  of \<open>editor_row_insert_char\<close>); a position beyond the end of the row is outside the row's
  bytes. \<open>char_data[0]\<close> of an empty string is its terminator.
\<close>

definition reinsert_char :: "nat \<Rightarrow> int \<Rightarrow> string \<Rightarrow> editor_config \<Rightarrow> editor_config option" where
  "reinsert_char i pos data E =
     (let cs = chars (row E ! i)
      in if pos > int (length cs) then None
         else Some (E\<lparr>row := (row E)[i := editor_update_row
                               ((row E ! i)\<lparr>chars := take (nat pos) cs
                                                       @ (case data of [] \<Rightarrow> NUL | c # _ \<Rightarrow> c)
                                                       # drop (nat pos) cs\<rparr>)],
                      dirty := dirty E + 1\<rparr>))"

definition undo_entry_inverse :: "undo_entry \<Rightarrow> editor_config \<Rightarrow> editor_config option" where
  "undo_entry_inverse e E =
     (case op_type e of
        UNDO_CHAR_INSERT \<Rightarrow>
          (if row_idx e \<ge> 0 \<and> row_idx e < row_count E \<and> char_pos e \<ge> 0
           then Some (editor_row_delete_char (nat (row_idx e)) (char_pos e) E)
           else Some E)
      | UNDO_CHAR_DELETE \<Rightarrow>
          (if row_idx e \<ge> 0 \<and> row_idx e < row_count E \<and> char_data e \<noteq> None \<and> char_pos e \<ge> 0
           then reinsert_char (nat (row_idx e)) (char_pos e) (the (char_data e)) E
           else Some E)
      | UNDO_CHAR_DELETE_FWD \<Rightarrow>
          (if row_idx e \<ge> 0 \<and> row_idx e < row_count E \<and> char_data e \<noteq> None \<and> char_pos e \<ge> 0
           then reinsert_char (nat (row_idx e)) (char_pos e) (the (char_data e)) E
           else Some E)
      | UNDO_ROW_INSERT \<Rightarrow>
          (if row_idx e \<ge> 0 \<and> row_idx e < row_count E
           then Some (editor_delete_row (row_idx e) E) else Some E)
      | UNDO_ROW_DELETE \<Rightarrow>
          (case row_content e of
             None \<Rightarrow> Some E
           | Some content \<Rightarrow>
               if row_idx e \<ge> 0 then Some (editor_insert_row (row_idx e) content E) else Some E)
      | UNDO_ROW_SPLIT \<Rightarrow>
          (if row_idx e \<ge> 0 \<and> row_idx e < row_count E - 1 then
             (let i = nat (row_idx e);
                  E1 = E\<lparr>row := (row E)[i := editor_update_row
                             ((row E ! i)\<lparr>chars := chars (row E ! i) @ chars (row E ! Suc i)\<rparr>)]\<rparr>
              in Some (editor_delete_row (row_idx e + 1) E1))
           else Some E)
      | UNDO_SELECTION_DELETE \<Rightarrow>
          (case multi_line e of
             None \<Rightarrow> Some E
           | Some text \<Rightarrow>
               insert_payload text (E\<lparr>cursor_y := cursor_row e, cursor_x := cursor_col e\<rparr>))
      | UNDO_PASTE \<Rightarrow>
          (case multi_line e of
             None \<Rightarrow> Some E
           | Some text \<Rightarrow>
               selection_delete
                 (select_range (cursor_row e) (cursor_col e) (end_row e) (end_col e) E)))"

text \<open>
  The loop of \<open>editor_undo\<close> visits the stack from its last entry to its first; the list
  passed is the reversed stack. No entry is logged while \<open>undo_logging\<close> is set, so the
  stack the loop reads does not change under it. The accumulator carries \<open>restore_row\<close> and
  \<open>restore_col\<close>.
\<close>

fun undo_loop ::
  "undo_entry list \<Rightarrow> int \<Rightarrow> editor_config \<times> int \<times> int \<Rightarrow> (editor_config \<times> int \<times> int) option" where
  "undo_loop [] target_group acc = Some acc"
| "undo_loop (e # es) target_group (E, restore_row, restore_col) =
     (if group_id e \<noteq> target_group then undo_loop es target_group (E, restore_row, restore_col)
      else
        (case undo_entry_inverse e E of
           None \<Rightarrow> None
         | Some E1 \<Rightarrow>
             undo_loop es target_group
               (E1,
                (if restore_row = -1 then cursor_row e else restore_row),
                (if restore_row = -1 then cursor_col e else restore_col))))"

definition clamp_cursor :: "int \<Rightarrow> int \<Rightarrow> editor_config \<Rightarrow> editor_config" where
  "clamp_cursor r c E =
     (if r \<ge> 0 then
        (let E1 = E\<lparr>cursor_y := r, cursor_x := c\<rparr>;
             E2 = (if cursor_y E1 \<ge> row_count E1
                   then E1\<lparr>cursor_y := (if row_count E1 > 0 then row_count E1 - 1 else 0)\<rparr>
                   else E1)
         in if cursor_y E2 < row_count E2 \<and>
               cursor_x E2 > line_size (row E2 ! nat (cursor_y E2))
            then E2\<lparr>cursor_x := line_size (row E2 ! nat (cursor_y E2))\<rparr>
            else E2)
      else E)"

definition editor_undo :: "editor_config \<Rightarrow> editor_config option" where
  "editor_undo E =
     (case undo_stack E of
        None \<Rightarrow> Some E
      | Some st \<Rightarrow>
          if undo_position E \<le> 0 then Some E
          else
            (case undo_loop (rev st) (undo_position E) (E\<lparr>undo_logging := True\<rparr>, -1, -1) of
               None \<Rightarrow> None
             | Some (E1, restore_row, restore_col) \<Rightarrow>
                 (let E2 = clamp_cursor restore_row restore_col E1
                  in Some (E2\<lparr>undo_position := undo_position E2 - 1, undo_logging := False\<rparr>))))"

definition redo_entry_apply ::
  "undo_entry \<Rightarrow> editor_config \<Rightarrow> (editor_config \<times> int \<times> int) option" where
  "redo_entry_apply e E =
     (case op_type e of
        UNDO_CHAR_INSERT \<Rightarrow>
          (if row_idx e \<ge> 0 \<and> row_idx e < row_count E \<and> char_data e \<noteq> None \<and> char_pos e \<ge> 0
           then map_option (\<lambda>E1. (E1, cursor_row e, char_pos e + 1))
                  (reinsert_char (nat (row_idx e)) (char_pos e) (the (char_data e)) E)
           else Some (E, cursor_row e, cursor_col e))
      | UNDO_CHAR_DELETE \<Rightarrow>
          (if row_idx e \<ge> 0 \<and> row_idx e < row_count E \<and> char_pos e \<ge> 0
           then Some (editor_row_delete_char (nat (row_idx e)) (char_pos e) E,
                      cursor_row e, cursor_col e)
           else Some (E, cursor_row e, cursor_col e))
      | UNDO_CHAR_DELETE_FWD \<Rightarrow>
          (if row_idx e \<ge> 0 \<and> row_idx e < row_count E \<and> char_pos e \<ge> 0
           then Some (editor_row_delete_char (nat (row_idx e)) (char_pos e) E,
                      cursor_row e, cursor_col e)
           else Some (E, cursor_row e, cursor_col e))
      | UNDO_ROW_INSERT \<Rightarrow>
          (case row_content e of
             None \<Rightarrow> Some (E, cursor_row e, cursor_col e)
           | Some content \<Rightarrow>
               Some (if row_idx e \<ge> 0 then editor_insert_row (row_idx e) content E else E,
                     cursor_row e, cursor_col e))
      | UNDO_ROW_DELETE \<Rightarrow>
          Some (if row_idx e \<ge> 0 \<and> row_idx e < row_count E
                then editor_delete_row (row_idx e) E else E,
                cursor_row e, cursor_col e)
      | UNDO_ROW_SPLIT \<Rightarrow>
          (if row_idx e \<ge> 0 \<and> row_idx e < row_count E \<and> char_pos e \<ge> 0
           then map_option (\<lambda>E1. (E1, cursor_row e, cursor_col e))
                  (editor_insert_newline (E\<lparr>cursor_y := row_idx e, cursor_x := char_pos e\<rparr>))
           else Some (E, cursor_row e, cursor_col e))
      | UNDO_SELECTION_DELETE \<Rightarrow>
          (case multi_line e of
             None \<Rightarrow> Some (E, cursor_row e, cursor_col e)
           | Some text \<Rightarrow>
               map_option (\<lambda>E1. (E1, cursor_row e, cursor_col e))
                 (selection_delete
                    (select_range (cursor_row e) (cursor_col e) (end_row e) (end_col e) E)))
      | UNDO_PASTE \<Rightarrow>
          (case multi_line e of
             None \<Rightarrow> Some (E, cursor_row e, cursor_col e)
           | Some text \<Rightarrow>
               map_option (\<lambda>E1. (E1, cursor_y E1, cursor_x E1))
                 (insert_payload text (E\<lparr>cursor_y := cursor_row e, cursor_x := cursor_col e\<rparr>))))"

text \<open>The loop of \<open>editor_redo\<close>, from the first entry of the stack to the last.\<close>

fun redo_loop ::
  "undo_entry list \<Rightarrow> int \<Rightarrow> editor_config \<times> int \<times> int \<Rightarrow> (editor_config \<times> int \<times> int) option" where
  "redo_loop [] target_group acc = Some acc"
| "redo_loop (e # es) target_group (E, last_row, last_col) =
     (if group_id e \<noteq> target_group then redo_loop es target_group (E, last_row, last_col)
      else
        (case redo_entry_apply e E of
           None \<Rightarrow> None
         | Some acc \<Rightarrow> redo_loop es target_group acc))"

definition editor_redo :: "editor_config \<Rightarrow> editor_config option" where
  "editor_redo E =
     (case undo_stack E of
        None \<Rightarrow> Some E
      | Some st \<Rightarrow>
          if undo_position E \<ge> undo_group_id E then Some E
          else
            (let E0 = E\<lparr>undo_position := undo_position E + 1, undo_logging := True\<rparr>
             in case redo_loop st (undo_position E0) (E0, -1, -1) of
                  None \<Rightarrow> None
                | Some (E1, last_row, last_col) \<Rightarrow>
                    Some ((clamp_cursor last_row last_col E1)\<lparr>undo_logging := False\<rparr>)))"

section \<open>Undo log: invariants and scenarios\<close>

text \<open>
  The capacities the stack can have: it starts at 256 and doubles while it is below
  \<open>UNDO_MAX_ENTRIES\<close>, so it stops at the first value of that sequence not below 10000.
\<close>

definition undo_capacities :: "int list" where
  "undo_capacities = [256, 512, 1024, 2048, 4096, 8192, 16384]"

definition undo_stack_wf :: "editor_config \<Rightarrow> bool" where
  "undo_stack_wf E =
     (case undo_stack E of
        None \<Rightarrow> True
      | Some st \<Rightarrow> int (length st) \<le> undo_stack_capacity E \<and>
                   undo_stack_capacity E \<in> set undo_capacities)"

definition group_size :: "int \<Rightarrow> undo_entry list \<Rightarrow> nat" where
  "group_size g st = length (filter (\<lambda>e. group_id e = g) st)"

text \<open>Group ids are monotonic within the log, and none exceeds the current group.\<close>

definition groups_monotonic :: "editor_config \<Rightarrow> bool" where
  "groups_monotonic E =
     (case undo_stack E of
        None \<Rightarrow> True
      | Some st \<Rightarrow> sorted (map group_id st) \<and> list_all (\<lambda>e. group_id e \<le> undo_group_id E) st)"

text \<open>The entry that typing \<open>x\<close> at the start of the first row logs, in group \<open>g\<close>.\<close>

definition typed_entry :: "int \<Rightarrow> undo_entry" where
  "typed_entry g =
     \<lparr>group_id = g, op_type = UNDO_CHAR_INSERT, cursor_row = 0, cursor_col = 0, row_idx = 0,
      row_content = None, char_pos = 0, char_data = Some ''x'', end_row = 0, end_col = 0,
      multi_line = None\<rparr>"

section \<open>File input and output\<close>

text \<open>
  \<open>editor_rows_to_string\<close>: the write pointer moves through the buffer, copying each row's
  \<open>line_size\<close> bytes and then one \<open>'\n'\<close>.
\<close>

definition editor_rows_to_string :: "editor_config \<Rightarrow> string" where
  "editor_rows_to_string E = foldl (\<lambda>buffer r. buffer @ chars r @ [LF]) [] (row E)"

text \<open>
  The C library's \<open>getline\<close> on the unread rest of the file: the bytes up to and including
  the next \<open>'\n'\<close> (or up to the end of the file), and what remains; \<open>None\<close> (\<open>-1\<close>) at the end
  of the file.
\<close>

fun read_line :: "string \<Rightarrow> string \<times> string" where
  "read_line [] = ([], [])"
| "read_line (c # cs) =
     (if c = LF then ([c], cs) else (let (l, rest) = read_line cs in (c # l, rest)))"

definition getline :: "string \<Rightarrow> (string \<times> string) option" where
  "getline input = (if input = [] then None else Some (read_line input))"

text \<open>The inner loop of \<open>editor_open\<close> that lowers \<open>line_length\<close> past trailing CR and LF.\<close>

definition trim_crlf :: "string \<Rightarrow> string" where
  "trim_crlf l = rev (dropWhile (\<lambda>c. c = LF \<or> c = CR) (rev l))"

lemma read_line_shorter: "input \<noteq> [] \<Longrightarrow> length (snd (read_line input)) < length input"
  by (induction input) (auto split: prod.splits, force)

function editor_open_loop :: "string \<Rightarrow> editor_config \<Rightarrow> editor_config" where
  "editor_open_loop input E =
     (case getline input of
        None \<Rightarrow> E
      | Some (l, rest) \<Rightarrow> editor_open_loop rest (editor_insert_row (row_count E) (trim_crlf l) E))"
  by pat_completeness auto
termination
proof (relation "measure (\<lambda>(input, E). length input)")
  show "wf (measure (\<lambda>(input, E). length (input :: string)))" by simp
next
  fix input :: string and E :: editor_config and x2 l rest
  assume "getline input = Some x2" "(l, rest) = x2"
  then have "input \<noteq> []" "rest = snd (read_line input)"
    by (auto simp: getline_def split: if_splits)
  then have "length rest < length input" by (simp add: read_line_shorter)
  then show "((rest, editor_insert_row (row_count E) (trim_crlf l) E), input, E)
               \<in> measure (\<lambda>(input, E). length input)" by simp
qed

declare editor_open_loop.simps [simp del]

text \<open>
  \<open>editor_open\<close> on the content of the named file; \<open>None\<close> for the content is a failing
  \<open>fopen\<close>, on which the editor exits (\<open>die\<close>), the result \<open>None\<close>.
\<close>

definition editor_open :: "string option \<Rightarrow> editor_config \<Rightarrow> editor_config option" where
  "editor_open file_content E =
     (case file_content of
        None \<Rightarrow> None
      | Some input \<Rightarrow> Some ((editor_open_loop input E)\<lparr>dirty := 0\<rparr>))"

text \<open>
  The lines of a file, for the statement of what opening does: the pieces that the line
  feeds end, and a last piece without a line feed when it is not empty. The first argument
  of \<open>split_lines\<close> is the part of the current line already read.
\<close>

fun split_lines :: "string \<Rightarrow> string \<Rightarrow> string list" where
  "split_lines acc [] = (if acc = [] then [] else [acc])"
| "split_lines acc (c # cs) =
     (if c = LF then acc # split_lines [] cs else split_lines (acc @ [c]) cs)"

definition file_lines :: "string \<Rightarrow> string list" where
  "file_lines input = split_lines [] input"

section \<open>Search index\<close>








section \<open>Key dispatch: the quit counter\<close>

text \<open>
  The state \<open>editor_process_keypress\<close> works on besides the editor: its static
  \<open>quit_times\<close>, the file-static \<open>menu_quit_requested\<close>, and the menu fields.
\<close>

record keypress_state =
  ed :: editor_config
  quit_times :: int
  menu_quit_requested :: bool
  menu_open :: int
  menu_bar_visible :: bool
  last_key_was_home :: bool

datatype keypress_result = Exited | Running keypress_state

definition CTRL_KEY :: "char \<Rightarrow> int" where
  "CTRL_KEY k = int (of_char k mod 32 :: nat)"

definition CHAR_ESCAPE :: int where
  "CHAR_ESCAPE = 27"

definition KEY_ARROW_LEFT :: int where
  "KEY_ARROW_LEFT = 1000"

definition KEY_ARROW_RIGHT :: int where
  "KEY_ARROW_RIGHT = 1001"

definition KEY_ARROW_UP :: int where
  "KEY_ARROW_UP = 1002"

definition KEY_ARROW_DOWN :: int where
  "KEY_ARROW_DOWN = 1003"

definition HOME_KEY :: int where
  "HOME_KEY = 1005"

definition MOUSE_EVENT :: int where
  "MOUSE_EVENT = 1019"

definition F10_KEY :: int where
  "F10_KEY = 1039"

text \<open>
  \<open>editor_process_keypress\<close> on the key that \<open>editor_read_key\<close> returned. Two parts of the
  function are parameters: \<open>menu_key\<close>, what the menu functions called for a key in an open
  menu do (\<open>menu_move_selection\<close>, \<open>menu_switch\<close>, \<open>menu_execute_selected\<close>), and \<open>command\<close>,
  what every case of the \<open>switch\<close> other than the quit key does. Neither can reach
  \<open>quit_times\<close>, a static local of this function. The quit-key case, the early returns and
  the reset of \<open>quit_times\<close> at the end of the function are as in the source.
\<close>

definition editor_process_keypress ::
  "(int \<Rightarrow> keypress_state \<Rightarrow> keypress_state) \<Rightarrow> (int \<Rightarrow> keypress_state \<Rightarrow> keypress_state)
     \<Rightarrow> int \<Rightarrow> keypress_state \<Rightarrow> keypress_result" where
  "editor_process_keypress menu_key command key S =
     (if key = -1 then Running S
      else if menu_quit_requested S then
        (if dirty (ed S) \<noteq> 0 then Running (S\<lparr>menu_quit_requested := False\<rparr>) else Exited)
      else if menu_open S \<ge> 0 \<and> key = CHAR_ESCAPE then Running (S\<lparr>menu_open := -1\<rparr>)
      else if menu_open S \<ge> 0 \<and>
              (key = KEY_ARROW_UP \<or> key = KEY_ARROW_DOWN \<or> key = KEY_ARROW_LEFT \<or>
               key = KEY_ARROW_RIGHT \<or> key = 13)
        then Running ((menu_key key S)\<lparr>quit_times := quit_times S\<rparr>)
      else
        (let S1 = (if menu_open S \<ge> 0 \<and> key \<noteq> MOUSE_EVENT then S\<lparr>menu_open := -1\<rparr> else S)
         in if key = F10_KEY \<and> menu_bar_visible S1 then
              Running (if menu_open S1 \<ge> 0 then S1\<lparr>menu_open := -1\<rparr> else S1\<lparr>menu_open := 0\<rparr>)
            else
              (let S2 = (if key \<noteq> HOME_KEY then S1\<lparr>last_key_was_home := False\<rparr> else S1)
               in if key = CTRL_KEY CHR ''q'' then
                    (if dirty (ed S2) \<noteq> 0 \<and> quit_times S2 > 0
                     then Running (S2\<lparr>quit_times := quit_times S2 - 1\<rparr>)
                     else Exited)
                  else Running ((command key S2)\<lparr>quit_times := MITER_QUIT_TIMES\<rparr>))))"

text \<open>The main loop on a sequence of keys, until the editor exits.\<close>

fun press_keys ::
  "(int \<Rightarrow> keypress_state \<Rightarrow> keypress_state) \<Rightarrow> (int \<Rightarrow> keypress_state \<Rightarrow> keypress_state)
     \<Rightarrow> int list \<Rightarrow> keypress_state \<Rightarrow> keypress_result" where
  "press_keys menu_key command [] S = Running S"
| "press_keys menu_key command (key # keys) S =
     (case editor_process_keypress menu_key command key S of
        Exited \<Rightarrow> Exited
      | Running S1 \<Rightarrow> press_keys menu_key command keys S1)"

section \<open>Initial state and the buffers of the scenarios\<close>

text \<open>
  The state after \<open>editor_init\<close> (an empty buffer, no cursors, an empty undo log), with a
  clock that has stood still since start-up and an allocator that never fails.
\<close>

definition editor_init :: editor_config where
  "editor_init =
     \<lparr>cursor_x = 0, cursor_y = 0, row = [], dirty = 0,
      selection = \<lparr>active = False, anchor = \<lparr>pos_row = 0, pos_col = 0\<rparr>,
                   cursor = \<lparr>pos_row = 0, pos_col = 0\<rparr>\<rparr>,
      undo_group_id = 0, undo_position = 0, undo_memory_groups = 0, undo_logging = False,
      undo_stack = None, undo_stack_capacity = 0,
      last_edit_time = \<lparr>tv_sec = 0, tv_nsec = 0\<rparr>,
      cursors = [], cursor_capacity = 0,
      cursors_follow_primary = True, allow_primary_overlap = False,
      search_results = [],
      clock = (\<lambda>n. \<lparr>tv_sec = 0, tv_nsec = 0\<rparr>), clock_reads = 0,
      alloc_ok = (\<lambda>n. True), alloc_calls = 0\<rparr>"

definition buffer_of :: "string list \<Rightarrow> editor_config" where
  "buffer_of ls = editor_init\<lparr>row := map (\<lambda>s. editor_update_row \<lparr>chars = s, render = []\<rparr>) ls\<rparr>"

definition secondary_at :: "int \<Rightarrow> int \<Rightarrow> cursor_position" where
  "secondary_at ln col =
     \<lparr>line = ln, column = col, has_selection = 0, anchor_line = 0, anchor_column = 0\<rparr>"


definition indented_line :: editor_config where
  "indented_line = (buffer_of [''  ab''])\<lparr>cursor_x := 3\<rparr>"

definition dirty_session :: keypress_state where
  "dirty_session =
     \<lparr>ed = (buffer_of [''ab''])\<lparr>dirty := 1\<rparr>, quit_times = MITER_QUIT_TIMES,
      menu_quit_requested = False, menu_open = -1, menu_bar_visible = True,
      last_key_was_home = False\<rparr>"

text \<open>A log filled to its last capacity by one long group of typed characters.\<close>

definition full_log :: editor_config where
  "full_log =
     (buffer_of [''ab''])\<lparr>undo_stack := Some (replicate 16384 (typed_entry 1)),
                          undo_stack_capacity := 16384,
                          undo_group_id := 1, undo_position := 1, undo_memory_groups := 1\<rparr>"

definition undone_with_cursor :: "editor_config option" where
  "undone_with_cursor =
     Option.bind
       (Option.bind (editor_insert_char CHR ''z'' (buffer_of [''ab'', ''cd'']))
          (\<lambda>E. Some (snd (multicursor_add 1 1 E))))
       editor_undo"

definition log_view ::
  "editor_config \<Rightarrow> string list \<times> int \<times> int \<times> (int \<times> int \<times> string option) list option" where
  "log_view E =
     (map chars (row E), undo_position E, undo_group_id E,
      map_option (map (\<lambda>e. (group_id e, row_idx e, char_data e))) (undo_stack E))"

text \<open>Rows foo, bar, baz with the primary cursor at (0,0) and secondaries at (1,0), (2,0).\<close>

definition three_cursors :: editor_config where
  "three_cursors =
     (buffer_of [''foo'', ''bar'', ''baz''])\<lparr>cursors := [secondary_at 1 0, secondary_at 2 0],
                                             cursor_capacity := 4\<rparr>"

text \<open>
  Rows abc, def with the selection from (0,1) to the primary cursor at (0,3) and a secondary
  cursor at (1,0).
\<close>

definition selection_and_secondary :: editor_config where
  "selection_and_secondary =
     (buffer_of [''abc'', ''def''])\<lparr>cursor_x := 3,
        selection := \<lparr>active = True, anchor = \<lparr>pos_row = 0, pos_col = 1\<rparr>,
                       cursor = \<lparr>pos_row = 0, pos_col = 3\<rparr>\<rparr>,
        cursors := [secondary_at 1 0], cursor_capacity := 4\<rparr>"

text \<open>
  Rows a, b with a secondary cursor at the end of the second row: typing \<open>z\<close> and undoing it
  leaves the secondary cursor one column past the end of its row.
\<close>

definition secondary_at_row_end :: editor_config where
  "secondary_at_row_end =
     (buffer_of [''a'', ''b''])\<lparr>cursors := [secondary_at 1 1], cursor_capacity := 4\<rparr>"

definition typed_and_undone :: "editor_config option" where
  "typed_and_undone =
     Option.bind (multicursor_insert_char CHR ''z'' secondary_at_row_end) editor_undo"

text \<open>A secondary cursor at column \<open>INT_MAX\<close> of the line of the primary cursor.\<close>

definition secondary_at_int_max :: editor_config where
  "secondary_at_int_max =
     (buffer_of [''a''])\<lparr>cursors := [secondary_at 0 2147483647], cursor_capacity := 4\<rparr>"

text \<open>
  A view of a state after an edit: the rows, the primary cursor and the positions of the
  secondary cursors.
\<close>

definition cursor_view ::
  "editor_config \<Rightarrow> string list \<times> (int \<times> int) \<times> (int \<times> int) list" where
  "cursor_view E =
     (map chars (row E), (cursor_y E, cursor_x E), map (\<lambda>c. (line c, column c)) (cursors E))"

text \<open>Rows foo, bar with no secondary cursor yet, in a process whose allocations fail.\<close>

definition out_of_memory :: editor_config where
  "out_of_memory = (buffer_of [''foo'', ''bar''])\<lparr>alloc_ok := (\<lambda>n. False)\<rparr>"

text \<open>
  A full log in which the two entries of one multi-cursor insert (group 2: \<open>x\<close> typed at the
  start of rows 1 and 0, logged in that order) lie at indices 4095 and 4096, after 4095
  entries of group 1 and before 12287 entries of group 3.
\<close>

definition batch_entry :: "int \<Rightarrow> undo_entry" where
  "batch_entry r =
     \<lparr>group_id = 2, op_type = UNDO_CHAR_INSERT, cursor_row = r, cursor_col = 0, row_idx = r,
      row_content = None, char_pos = 0, char_data = Some ''x'', end_row = 0, end_col = 0,
      multi_line = None\<rparr>"

definition batch_log :: editor_config where
  "batch_log =
     (buffer_of [''ab'', ''cd''])\<lparr>undo_stack :=
                                     Some (replicate 4095 (typed_entry 1)
                                           @ [batch_entry 1, batch_entry 0]
                                           @ replicate 12287 (typed_entry 3)),
                                   undo_stack_capacity := 16384,
                                   undo_group_id := 3, undo_position := 3,
                                   undo_memory_groups := 3\<rparr>"

section \<open>Auxiliary facts about lists\<close>

lemma foldl_append_concat:
  "foldl (\<lambda>acc x. acc @ f x) a xs = a @ concat (map f xs)"
  by (induction xs arbitrary: a) auto

section \<open>Multi-cursor character insert\<close>

subsection \<open>Inserting into one row\<close>

lemma spec_insert_no_cols:
  "\<forall>c\<in>set cols. c < i \<Longrightarrow> spec_insert i xs cols ch = xs"
proof (induction xs arbitrary: i)
  case Nil
  then have "count_list cols i = 0" by (auto simp: count_list_0_iff)
  then show ?case by simp
next
  case (Cons x xs)
  then have "count_list cols i = 0" by (auto simp: count_list_0_iff)
  moreover have "\<forall>c\<in>set cols. c < Suc i" using Cons.prems by auto
  ultimately show ?case using Cons.IH by simp
qed

lemma spec_insert_step:
  "\<forall>c\<in>set cols. c \<le> k \<Longrightarrow> i \<le> k \<Longrightarrow> k \<le> i + length xs \<Longrightarrow>
   spec_insert i (take (k - i) xs @ ch # drop (k - i) xs) cols ch = spec_insert i xs (k # cols) ch"
proof (induction xs arbitrary: i)
  case Nil
  then have k: "k = i" by simp
  have "\<forall>c\<in>set cols. c < Suc i" using Nil k by auto
  then have "count_list cols (Suc i) = 0" by (auto simp: count_list_0_iff)
  then show ?case using k by (simp add: replicate_append_same)
next
  case (Cons x xs)
  show ?case
  proof (cases "k = i")
    case True
    have lt: "\<forall>c\<in>set cols. c < Suc i" using Cons.prems True by auto
    have lt2: "\<forall>c\<in>set (k # cols). c < Suc i" using lt True by simp
    have a: "spec_insert (Suc i) (x # xs) cols ch = x # xs"
      using lt by (rule spec_insert_no_cols)
    have b: "spec_insert (Suc i) xs (k # cols) ch = xs"
      using lt2 by (rule spec_insert_no_cols)
    show ?thesis using True a b by (simp add: replicate_append_same)
  next
    case False
    then have lt: "i < k" using Cons.prems by simp
    then have d: "k - i = Suc (k - Suc i)" by simp
    have "spec_insert (Suc i) (take (k - Suc i) xs @ ch # drop (k - Suc i) xs) cols ch =
          spec_insert (Suc i) xs (k # cols) ch"
      using Cons.prems lt by (intro Cons.IH) auto
    then show ?thesis using False d by simp
  qed
qed

lemma spec_insert_count_cong:
  "(\<And>k. count_list cols k = count_list cols' k) \<Longrightarrow>
   spec_insert i xs cols ch = spec_insert i xs cols' ch"
  by (induction xs arbitrary: i) auto

subsection \<open>Inserting at a descending list of cursors\<close>

lemma chars_insert_at_in_rows:
  "in_rows css c \<Longrightarrow>
   chars_insert_at ch c css =
     css[nat (line c) := take (nat (column c)) (css ! nat (line c)) @ ch
                          # drop (nat (column c)) (css ! nat (line c))]"
  by (simp add: chars_insert_at_def in_rows_def Let_def)

lemma in_rows_after_insert:
  "in_rows css c \<Longrightarrow> in_rows css d \<Longrightarrow> in_rows (chars_insert_at ch c css) d"
  by (auto simp: chars_insert_at_in_rows in_rows_def nth_list_update)

lemma sorted_desc_head:
  "sorted_desc (c # cs) \<Longrightarrow> d \<in> set cs \<Longrightarrow> line d = line c \<Longrightarrow> column d \<le> column c"
  by (auto simp: sorted_desc_def)

lemma fold_chars_insert_at:
  "sorted_desc cs \<Longrightarrow> \<forall>c\<in>set cs. in_rows css c \<Longrightarrow>
   fold (chars_insert_at ch) cs css =
     map (\<lambda>l. spec_insert 0 (css ! l) (columns_on cs l) ch) [0..<length css]"
proof (induction cs arbitrary: css)
  case Nil
  have "\<And>xs. spec_insert 0 xs [] ch = xs" by (rule spec_insert_no_cols) simp
  then show ?case by (simp add: columns_on_def map_nth)
next
  case (Cons c cs)
  let ?l0 = "nat (line c)"
  let ?k = "nat (column c)"
  let ?css' = "chars_insert_at ch c css"
  have c: "in_rows css c" using Cons.prems by simp
  then have l0: "?l0 < length css" "int ?l0 = line c" "?k \<le> length (css ! ?l0)"
    by (auto simp: in_rows_def)
  have css': "?css' = css[?l0 := take ?k (css ! ?l0) @ ch # drop ?k (css ! ?l0)]"
    using c by (rule chars_insert_at_in_rows)
  have len: "length ?css' = length css" by (simp add: css')
  have sd: "sorted_desc cs" using Cons.prems(1) by (simp add: sorted_desc_def)
  have ir: "\<forall>d\<in>set cs. in_rows ?css' d"
    using Cons.prems(2) c by (auto intro: in_rows_after_insert)
  have ih: "fold (chars_insert_at ch) cs ?css' =
      map (\<lambda>l. spec_insert 0 (?css' ! l) (columns_on cs l) ch) [0..<length css]"
    using Cons.IH[OF sd ir] len by simp
  have "\<And>l. l < length css \<Longrightarrow>
      spec_insert 0 (?css' ! l) (columns_on cs l) ch =
      spec_insert 0 (css ! l) (columns_on (c # cs) l) ch"
  proof -
    fix l assume l: "l < length css"
    show "spec_insert 0 (?css' ! l) (columns_on cs l) ch =
      spec_insert 0 (css ! l) (columns_on (c # cs) l) ch"
    proof (cases "l = ?l0")
      case False
      then have "line c \<noteq> int l" using l0(2) by auto
      then show ?thesis using False by (simp add: css' columns_on_def)
    next
      case True
      have le: "\<forall>x\<in>set (columns_on cs l). x \<le> ?k"
      proof
        fix x assume "x \<in> set (columns_on cs l)"
        then obtain d where d: "d \<in> set cs" "line d = int l" "x = nat (column d)"
          by (auto simp: columns_on_def)
        then have "line d = line c" using True l0(2) by simp
        then have "column d \<le> column c" using sorted_desc_head[OF Cons.prems(1) d(1)] by simp
        then show "x \<le> ?k" using d(3) by simp
      qed
      have "spec_insert 0 (take (?k - 0) (css ! ?l0) @ ch # drop (?k - 0) (css ! ?l0)) (columns_on cs l) ch
            = spec_insert 0 (css ! ?l0) (?k # columns_on cs l) ch"
        using le l0(3) by (intro spec_insert_step) auto
      moreover have "columns_on (c # cs) l = ?k # columns_on cs l"
        using True l0(2) by (simp add: columns_on_def)
      ultimately show ?thesis using True l0(1) by (simp add: css')
    qed
  qed
  then have "map (\<lambda>l. spec_insert 0 (?css' ! l) (columns_on cs l) ch) [0..<length css] =
      map (\<lambda>l. spec_insert 0 (css ! l) (columns_on (c # cs) l) ch) [0..<length css]"
    by simp
  then show ?case using ih by simp
qed

subsection \<open>The cursor on the line past the last row\<close>

lemma sorted_desc_max_line:
  "sorted_desc (c # cs) \<Longrightarrow> d \<in> set cs \<Longrightarrow> line d \<le> line c"
  by (auto simp: sorted_desc_def)

lemma in_bounds_pad:
  "cursor_in_bounds css c \<Longrightarrow> in_rows (css @ [[]]) c"
  by (auto simp: cursor_in_bounds_def in_rows_def nth_append split: if_splits)

lemma in_bounds_no_pad:
  "cursor_in_bounds css c \<Longrightarrow> line c \<noteq> int (length css) \<Longrightarrow> in_rows css c"
  by (auto simp: cursor_in_bounds_def in_rows_def split: if_splits)

lemma fold_chars_insert_at_pad:
  assumes sd: "sorted_desc cs" and ib: "\<forall>c\<in>set cs. cursor_in_bounds css c"
  shows "fold (chars_insert_at ch) cs css = fold (chars_insert_at ch) cs (pad_rows css cs)"
proof (cases cs)
  case Nil
  then show ?thesis by (simp add: pad_rows_def)
next
  case (Cons c cs')
  show ?thesis
  proof (cases "list_ex (\<lambda>c. line c = int (length css)) cs")
    case False
    then show ?thesis by (simp add: pad_rows_def)
  next
    case True
    then obtain d where d: "d \<in> set cs" "line d = int (length css)"
      by (auto simp: list_ex_iff)
    have "line c = int (length css)"
    proof (cases "d = c")
      case True
      then show ?thesis using d by simp
    next
      case False
      then have "d \<in> set cs'" using d Cons by simp
      then have "line d \<le> line c" using sorted_desc_max_line sd Cons by blast
      moreover have "line c \<le> int (length css)"
        using ib Cons by (auto simp: cursor_in_bounds_def split: if_splits)
      ultimately show ?thesis using d by simp
    qed
    then have "chars_insert_at ch c css = chars_insert_at ch c (css @ [[]])"
      by (simp add: chars_insert_at_def Let_def)
    then show ?thesis using True Cons by (simp add: pad_rows_def)
  qed
qed

lemma fold_chars_insert_at_spec:
  assumes sd: "sorted_desc cs" and ib: "\<forall>c\<in>set cs. cursor_in_bounds css c"
  shows "fold (chars_insert_at ch) cs css = spec_insert_rows css cs ch"
proof -
  have "\<forall>c\<in>set cs. in_rows (pad_rows css cs) c"
  proof
    fix c assume c: "c \<in> set cs"
    show "in_rows (pad_rows css cs) c"
    proof (cases "list_ex (\<lambda>c. line c = int (length css)) cs")
      case True
      then show ?thesis using ib c by (simp add: pad_rows_def in_bounds_pad)
    next
      case False
      then have "line c \<noteq> int (length css)" using c by (auto simp: list_ex_iff)
      then show ?thesis using False ib c by (simp add: pad_rows_def in_bounds_no_pad)
    qed
  qed
  then have "fold (chars_insert_at ch) cs (pad_rows css cs) =
      map (\<lambda>l. spec_insert 0 (pad_rows css cs ! l) (columns_on cs l) ch)
          [0..<length (pad_rows css cs)]"
    using sd by (intro fold_chars_insert_at) auto
  then show ?thesis
    using fold_chars_insert_at_pad[OF sd ib] by (simp add: spec_insert_rows_def)
qed

subsection \<open>The sort\<close>

lemma set_cursor_sort_insert: "set (cursor_sort_insert cmp x xs) = insert x (set xs)"
  by (induction xs) auto

lemma set_cursor_sort: "set (cursor_sort cmp xs) = set xs"
  by (induction xs) (auto simp: set_cursor_sort_insert)

lemma length_cursor_sort_insert: "length (cursor_sort_insert cmp x xs) = Suc (length xs)"
  by (induction xs) auto

lemma length_cursor_sort: "length (cursor_sort cmp xs) = length xs"
  by (induction xs) (auto simp: length_cursor_sort_insert)

lemma count_cursor_sort_insert:
  "count_list (map f (filter P (cursor_sort_insert cmp x xs))) k =
   count_list (map f (filter P (x # xs))) k"
  by (induction xs) auto

lemma count_cursor_sort:
  "count_list (map f (filter P (cursor_sort cmp xs))) k = count_list (map f (filter P xs)) k"
proof (induction xs)
  case Nil
  then show ?case by simp
next
  case (Cons x xs)
  have "count_list (map f (filter P (cursor_sort cmp (x # xs)))) k =
        count_list (map f (filter P (x # cursor_sort cmp xs))) k"
    by (simp add: count_cursor_sort_insert del: filter.simps)
  then show ?case using Cons by simp
qed

lemma length_filter_cursor_sort_insert:
  "length (filter P (cursor_sort_insert cmp x xs)) = length (filter P (x # xs))"
  by (induction xs) auto

lemma length_filter_cursor_sort:
  "length (filter P (cursor_sort cmp xs)) = length (filter P xs)"
proof (induction xs)
  case Nil
  then show ?case by simp
next
  case (Cons x xs)
  have "length (filter P (cursor_sort cmp (x # xs))) = length (filter P (x # cursor_sort cmp xs))"
    by (simp add: length_filter_cursor_sort_insert del: filter.simps)
  then show ?case using Cons by simp
qed

lemma int_wrap_id: "- 2147483648 \<le> x \<Longrightarrow> x \<le> 2147483647 \<Longrightarrow> int_wrap x = x"
  by (simp add: int_wrap_def)

lemma int_wrap_add: "int_wrap (a + int_wrap b) = int_wrap (a + b)"
proof -
  have "(a + ((b + 2147483648) mod 4294967296 - 2147483648) + 2147483648) mod 4294967296
          = (a + (b + 2147483648) mod 4294967296) mod 4294967296"
    by simp
  also have "\<dots> = (a + (b + 2147483648)) mod 4294967296"
    by (rule mod_add_right_eq)
  finally show ?thesis by (simp add: int_wrap_def add.assoc)
qed

lemma cmp_reverse_le:
  assumes "0 \<le> line a" "line a \<le> INT_MAX" "0 \<le> column a" "column a \<le> INT_MAX"
    and "0 \<le> line b" "line b \<le> INT_MAX" "0 \<le> column b" "column b \<le> INT_MAX"
  shows "cursor_cmp_reverse a b \<le> 0 \<longleftrightarrow>
           line b < line a \<or> (line b = line a \<and> column b \<le> column a)"
proof -
  have f: "cursor_cmp_forward a b =
             (if line a \<noteq> line b then line a - line b else column a - column b)"
    using assms by (simp add: cursor_cmp_forward_def int_wrap_id INT_MAX_def)
  have "- 2147483648 \<le> - cursor_cmp_forward a b" "- cursor_cmp_forward a b \<le> 2147483647"
    using assms unfolding f by (auto simp: INT_MAX_def)
  then have "cursor_cmp_reverse a b = - cursor_cmp_forward a b"
    by (simp add: cursor_cmp_reverse_def int_wrap_id)
  then show ?thesis unfolding f by auto
qed

lemma sorted_desc_insert:
  assumes "\<forall>c\<in>set (x # xs). 0 \<le> line c \<and> line c \<le> INT_MAX \<and> 0 \<le> column c \<and> column c \<le> INT_MAX"
  shows "sorted_desc xs \<Longrightarrow> sorted_desc (cursor_sort_insert cursor_cmp_reverse x xs)"
  using assms
proof (induction xs)
  case Nil
  then show ?case by (simp add: sorted_desc_def)
next
  case (Cons y ys)
  have le: "cursor_cmp_reverse x y \<le> 0 \<longleftrightarrow>
           line y < line x \<or> (line y = line x \<and> column y \<le> column x)"
    using Cons.prems(2) by (intro cmp_reverse_le) simp_all
  show ?case
  proof (cases "cursor_cmp_reverse x y \<le> 0")
    case True
    then have "line y < line x \<or> (line y = line x \<and> column y \<le> column x)" using le by simp
    then have "\<forall>z\<in>set ys. line z < line x \<or> (line z = line x \<and> column z \<le> column x)"
      using Cons.prems(1) by (fastforce simp: sorted_desc_def)
    then show ?thesis using True le Cons.prems(1) by (simp add: sorted_desc_def)
  next
    case False
    then have yx: "line x < line y \<or> (line x = line y \<and> column x \<le> column y)"
      using le by auto
    have "sorted_desc ys" using Cons.prems(1) by (simp add: sorted_desc_def)
    moreover have "\<forall>c\<in>set (x # ys). 0 \<le> line c \<and> line c \<le> INT_MAX \<and> 0 \<le> column c \<and> column c \<le> INT_MAX"
      using Cons.prems(2) by simp
    ultimately have "sorted_desc (cursor_sort_insert cursor_cmp_reverse x ys)"
      using Cons.IH by blast
    moreover have "\<forall>z\<in>set (cursor_sort_insert cursor_cmp_reverse x ys).
        line z < line y \<or> (line z = line y \<and> column z \<le> column y)"
      using Cons.prems(1) yx by (auto simp: set_cursor_sort_insert sorted_desc_def)
    ultimately show ?thesis using False by (simp add: sorted_desc_def)
  qed
qed

lemma sorted_desc_cursor_sort:
  "\<forall>c\<in>set xs. 0 \<le> line c \<and> line c \<le> INT_MAX \<and> 0 \<le> column c \<and> column c \<le> INT_MAX \<Longrightarrow>
   sorted_desc (cursor_sort cursor_cmp_reverse xs)"
proof (induction xs)
  case Nil
  then show ?case by (simp add: sorted_desc_def)
next
  case (Cons x xs)
  have "sorted_desc (cursor_sort cursor_cmp_reverse xs)" using Cons by simp
  moreover have "\<forall>c\<in>set (x # cursor_sort cursor_cmp_reverse xs).
      0 \<le> line c \<and> line c \<le> INT_MAX \<and> 0 \<le> column c \<and> column c \<le> INT_MAX"
    using Cons.prems by (simp add: set_cursor_sort)
  ultimately show ?case using sorted_desc_insert by simp
qed

subsection \<open>What logging and inserting leave alone\<close>

lemma undo_clear_redo_frame:
  "row (undo_clear_redo E) = row E \<and>
   cursor_x (undo_clear_redo E) = cursor_x E \<and>
   cursor_y (undo_clear_redo E) = cursor_y E \<and>
   cursors (undo_clear_redo E) = cursors E \<and>
   allow_primary_overlap (undo_clear_redo E) = allow_primary_overlap E \<and>
   selection (undo_clear_redo E) = selection E"
  by (cases "undo_stack E") (simp_all add: undo_clear_redo_def)

lemma undo_maybe_start_group_frame:
  "row (undo_maybe_start_group f E) = row E \<and>
   cursor_x (undo_maybe_start_group f E) = cursor_x E \<and>
   cursor_y (undo_maybe_start_group f E) = cursor_y E \<and>
   cursors (undo_maybe_start_group f E) = cursors E \<and>
   allow_primary_overlap (undo_maybe_start_group f E) = allow_primary_overlap E \<and>
   selection (undo_maybe_start_group f E) = selection E"
  by (simp add: undo_maybe_start_group_def undo_start_new_group_def clock_gettime_def Let_def)

lemma undo_log_frame:
  "row (undo_log ty a b c d e f g h E) = row E \<and>
   cursor_x (undo_log ty a b c d e f g h E) = cursor_x E \<and>
   cursor_y (undo_log ty a b c d e f g h E) = cursor_y E \<and>
   cursors (undo_log ty a b c d e f g h E) = cursors E \<and>
   allow_primary_overlap (undo_log ty a b c d e f g h E) = allow_primary_overlap E \<and>
   selection (undo_log ty a b c d e f g h E) = selection E"
  by (simp add: undo_log_def Let_def case_prod_beta undo_clear_redo_frame
        undo_maybe_start_group_frame)

lemma editor_insert_char_at_frame:
  "cursor_x (editor_insert_char_at ln col ch E) = cursor_x E \<and>
   cursor_y (editor_insert_char_at ln col ch E) = cursor_y E \<and>
   cursors (editor_insert_char_at ln col ch E) = cursors E \<and>
   allow_primary_overlap (editor_insert_char_at ln col ch E) = allow_primary_overlap E \<and>
   selection (editor_insert_char_at ln col ch E) = selection E"
  by (simp add: editor_insert_char_at_def editor_insert_row_def editor_row_insert_char_def Let_def)

lemma insert_at_cursor_frame:
  "cursor_x (insert_at_cursor ch c E) = cursor_x E \<and>
   cursor_y (insert_at_cursor ch c E) = cursor_y E \<and>
   cursors (insert_at_cursor ch c E) = cursors E \<and>
   allow_primary_overlap (insert_at_cursor ch c E) = allow_primary_overlap E \<and>
   selection (insert_at_cursor ch c E) = selection E"
  by (simp add: insert_at_cursor_def editor_insert_char_at_frame undo_log_frame)

lemma fold_insert_at_cursor_frame:
  "cursor_x (fold (insert_at_cursor ch) cs E) = cursor_x E \<and>
   cursor_y (fold (insert_at_cursor ch) cs E) = cursor_y E \<and>
   cursors (fold (insert_at_cursor ch) cs E) = cursors E \<and>
   allow_primary_overlap (fold (insert_at_cursor ch) cs E) = allow_primary_overlap E \<and>
   selection (fold (insert_at_cursor ch) cs E) = selection E"
  by (induction cs arbitrary: E) (simp_all add: insert_at_cursor_frame)

lemma chars_editor_update_row: "chars (editor_update_row r) = chars r"
  by (simp add: editor_update_row_def)

lemma chars_row_insert_char:
  "chars (row_insert_char r at ch) =
     (let at' = (if at < 0 \<or> at > int (length (chars r)) then int (length (chars r)) else at)
      in take (nat at') (chars r) @ ch # drop (nat at') (chars r))"
  by (simp add: row_insert_char_def chars_editor_update_row line_size_def Let_def)

lemma chars_editor_insert_char_at:
  "map chars (row (editor_insert_char_at (line c) (column c) ch E)) =
     chars_insert_at ch c (map chars (row E))"
proof (cases "line c < 0 \<or> line c > int (length (row E))")
  case True
  then show ?thesis
    by (simp add: editor_insert_char_at_def chars_insert_at_def row_count_def)
next
  case False
  show ?thesis
  proof (cases "line c = int (length (row E))")
    case True
    then have n: "nat (line c) = length (row E)" by simp
    show ?thesis
      using True
      by (simp add: editor_insert_char_at_def chars_insert_at_def row_count_def Let_def
            editor_insert_row_def editor_row_insert_char_def n chars_row_insert_char
            chars_editor_update_row map_update nth_append list_update_append)
  next
    case F2: False
    with False have lt: "nat (line c) < length (row E)" by linarith
    show ?thesis
      using False F2 lt
      by (simp add: editor_insert_char_at_def chars_insert_at_def row_count_def Let_def
            editor_row_insert_char_def chars_row_insert_char map_update)
  qed
qed

lemma chars_insert_at_cursor:
  "map chars (row (insert_at_cursor ch c E)) = chars_insert_at ch c (map chars (row E))"
proof -
  let ?E1 = "undo_log UNDO_CHAR_INSERT (line c) (column c) (line c) (column c) (Some [ch]) 0 0 None E"
  have "row ?E1 = row E" by (simp add: undo_log_frame)
  then show ?thesis
    unfolding insert_at_cursor_def using chars_editor_insert_char_at[of c ch ?E1] by simp
qed

lemma chars_fold_insert_at_cursor:
  "map chars (row (fold (insert_at_cursor ch) cs E)) =
     fold (chars_insert_at ch) cs (map chars (row E))"
  by (induction cs arbitrary: E) (simp_all add: chars_insert_at_cursor)

subsection \<open>The auto-unindent pass leaves the cursors of the state alone\<close>

lemma unindent_line_apply_frame:
  "cursor_x (snd (unindent_line_apply ln E)) = cursor_x E \<and>
   cursor_y (snd (unindent_line_apply ln E)) = cursor_y E \<and>
   cursors (snd (unindent_line_apply ln E)) = cursors E \<and>
   allow_primary_overlap (snd (unindent_line_apply ln E)) = allow_primary_overlap E \<and>
   selection (snd (unindent_line_apply ln E)) = selection E"
  by (simp add: unindent_line_apply_def Let_def)

lemma editor_auto_unindent_closing_brace_frame:
  "cursor_x (snd (editor_auto_unindent_closing_brace ln E)) = cursor_x E \<and>
   cursor_y (snd (editor_auto_unindent_closing_brace ln E)) = cursor_y E \<and>
   cursors (snd (editor_auto_unindent_closing_brace ln E)) = cursors E \<and>
   allow_primary_overlap (snd (editor_auto_unindent_closing_brace ln E)) = allow_primary_overlap E \<and>
   selection (snd (editor_auto_unindent_closing_brace ln E)) = selection E"
  by (simp add: editor_auto_unindent_closing_brace_def unindent_line_apply_frame)

lemma unindent_step_frame:
  "cursor_x (fst (unindent_step i S)) = cursor_x (fst S) \<and>
   cursor_y (fst (unindent_step i S)) = cursor_y (fst S) \<and>
   cursors (fst (unindent_step i S)) = cursors (fst S) \<and>
   allow_primary_overlap (fst (unindent_step i S)) = allow_primary_overlap (fst S) \<and>
   selection (fst (unindent_step i S)) = selection (fst S) \<and>
   length (snd (unindent_step i S)) = length (snd S)"
  by (cases S)
     (simp add: unindent_step_def Let_def case_prod_beta editor_auto_unindent_closing_brace_frame)

lemma fold_unindent_step_frame:
  "cursor_x (fst (fold unindent_step ns S)) = cursor_x (fst S) \<and>
   cursor_y (fst (fold unindent_step ns S)) = cursor_y (fst S) \<and>
   cursors (fst (fold unindent_step ns S)) = cursors (fst S) \<and>
   allow_primary_overlap (fst (fold unindent_step ns S)) = allow_primary_overlap (fst S) \<and>
   selection (fst (fold unindent_step ns S)) = selection (fst S) \<and>
   length (snd (fold unindent_step ns S)) = length (snd S)"
  by (induction ns arbitrary: S) (simp_all add: unindent_step_frame)

subsection \<open>The new columns\<close>

lemma lookup_position_found:
  "length as = length ps \<Longrightarrow>
   (\<And>i. i < length ps \<Longrightarrow> column (as ! i) = G (line (ps ! i)) (column (ps ! i))) \<Longrightarrow>
   \<exists>p\<in>set ps. line p = ln \<and> column p = col \<Longrightarrow>
   \<exists>a. lookup_position ps as ln col = Some a \<and> column a = G ln col"
proof (induction ps arbitrary: as)
  case Nil
  then show ?case by simp
next
  case (Cons p ps)
  then obtain a as' where as: "as = a # as'" by (cases as) auto
  show ?case
  proof (cases "line p = ln \<and> column p = col")
    case True
    then show ?thesis using Cons.prems(2)[of 0] as by simp
  next
    case False
    have l: "length as' = length ps" using Cons.prems(1) as by simp
    have g: "\<And>i. i < length ps \<Longrightarrow> column (as' ! i) = G (line (ps ! i)) (column (ps ! i))"
      using Cons.prems(2)[of "Suc _"] as by simp
    have e: "\<exists>p\<in>set ps. line p = ln \<and> column p = col" using Cons.prems(3) False by auto
    show ?thesis using Cons.IH[OF l g e] False as by auto
  qed
qed

lemma rebased_columns_lookup:
  assumes "length all_cursors = length orig" and "p \<in> set orig"
  shows "\<exists>a. lookup_position orig (rebased_columns orig all_cursors) (line p) (column p) = Some a \<and>
             column a = column (rebase_column_int orig p)"
proof -
  let ?G = "\<lambda>ln col. int_wrap (col + int (length (filter (\<lambda>q. line q = ln \<and> column q \<le> col) orig)))"
  have l: "length (rebased_columns orig all_cursors) = length orig"
    by (simp add: rebased_columns_def)
  have g: "\<And>i. i < length orig \<Longrightarrow>
      column (rebased_columns orig all_cursors ! i) = ?G (line (orig ! i)) (column (orig ! i))"
    by (simp add: rebased_columns_def insertions_before_def int_wrap_add)
  have e: "\<exists>q\<in>set orig. line q = line p \<and> column q = column p" using assms(2) by auto
  have "\<exists>a. lookup_position orig (rebased_columns orig all_cursors) (line p) (column p) = Some a \<and>
             column a = ?G (line p) (column p)"
    using lookup_position_found[of "rebased_columns orig all_cursors" orig ?G, OF l g e] by simp
  then show ?thesis by (simp add: rebase_column_int_def rebase_column_def)
qed

lemma rebase_column_sort:
  "rebase_column (cursor_sort cmp ps) c = rebase_column ps c"
  by (simp add: rebase_column_def length_filter_cursor_sort)

lemma rebase_column_int_sort:
  "rebase_column_int (cursor_sort cmp ps) c = rebase_column_int ps c"
  by (simp add: rebase_column_int_def rebase_column_sort)

lemma restore_primary_column_x:
  assumes "length all_cursors = length orig" and "primary_cursor E \<in> set orig"
  shows "restore_primary_column orig (rebased_columns orig all_cursors) E =
           E\<lparr>cursor_x := column (rebase_column_int orig (primary_cursor E))\<rparr>"
proof -
  have "line (primary_cursor E) = cursor_y E" "column (primary_cursor E) = cursor_x E"
    by (simp_all add: primary_cursor_def)
  then show ?thesis
    using rebased_columns_lookup[OF assms] by (auto simp: restore_primary_column_def)
qed

lemma restore_secondary_columns_map:
  assumes "length all_cursors = length orig" and "set (cursors E) \<subseteq> set orig"
  shows "restore_secondary_columns orig (rebased_columns orig all_cursors) E =
           E\<lparr>cursors := map (rebase_column_int orig) (cursors E)\<rparr>"
proof -
  have "\<And>c. c \<in> set (cursors E) \<Longrightarrow>
      (case lookup_position orig (rebased_columns orig all_cursors) (line c) (column c) of
         None \<Rightarrow> c | Some a \<Rightarrow> c\<lparr>column := column a\<rparr>) = rebase_column_int orig c"
  proof -
    fix c assume "c \<in> set (cursors E)"
    then have "c \<in> set orig" using assms(2) by auto
    from rebased_columns_lookup[OF assms(1) this]
    obtain a where "lookup_position orig (rebased_columns orig all_cursors) (line c) (column c) = Some a"
      and "column a = column (rebase_column_int orig c)" by blast
    then show "(case lookup_position orig (rebased_columns orig all_cursors) (line c) (column c) of
         None \<Rightarrow> c | Some a \<Rightarrow> c\<lparr>column := column a\<rparr>) = rebase_column_int orig c"
      by (simp add: rebase_column_int_def)
  qed
  then show ?thesis by (simp add: restore_secondary_columns_def cong: map_cong)
qed

lemma rebase_column_int_exact:
  "0 \<le> column c \<Longrightarrow> column (rebase_column ps c) \<le> INT_MAX \<Longrightarrow>
   rebase_column_int ps c = rebase_column ps c"
proof -
  assume a: "0 \<le> column c" "column (rebase_column ps c) \<le> INT_MAX"
  have "0 \<le> column (rebase_column ps c)" using a(1) by (simp add: rebase_column_def)
  then have "int_wrap (column (rebase_column ps c)) = column (rebase_column ps c)"
    using a(2) by (intro int_wrap_id) (simp_all add: INT_MAX_def)
  then show ?thesis by (simp add: rebase_column_int_def rebase_column_def)
qed

subsection \<open>Removing duplicates\<close>

lemma multicursor_remove_duplicates_frame:
  "row (multicursor_remove_duplicates E) = row E \<and>
   cursor_x (multicursor_remove_duplicates E) = cursor_x E \<and>
   cursor_y (multicursor_remove_duplicates E) = cursor_y E"
  by (simp add: multicursor_remove_duplicates_def Let_def split: list.splits)

lemma multicursor_remove_duplicates_cong:
  "cursor_y A = cursor_y B \<Longrightarrow> cursor_x A = cursor_x B \<Longrightarrow>
   allow_primary_overlap A = allow_primary_overlap B \<Longrightarrow> cursors A = cursors B \<Longrightarrow>
   cursors (multicursor_remove_duplicates A) = cursors (multicursor_remove_duplicates B)"
  by (simp add: multicursor_remove_duplicates_def Let_def split: list.splits)

lemma drop_primary_overlap_none:
  "\<forall>c\<in>set cs. \<not> (line c = cy \<and> column c = cx) \<Longrightarrow>
   drop_primary_overlap cy cx allow kept cs = cs"
  by (induction cs arbitrary: kept) auto

lemma collapse_adjacent_distinct:
  "distinct (map (\<lambda>c. (line c, column c)) (prev # cs)) \<Longrightarrow> collapse_adjacent prev cs = cs"
proof (induction cs arbitrary: prev)
  case Nil
  then show ?case by simp
next
  case (Cons c cs)
  have "\<not> (line c = line prev \<and> column c = column prev)" using Cons.prems by auto
  moreover have "collapse_adjacent c cs = cs" using Cons.prems by (intro Cons.IH) simp
  ultimately show ?case by auto
qed

lemma distinct_cursor_sort_insert:
  "distinct (map f (cursor_sort_insert cmp x xs)) = distinct (map f (x # xs))"
  by (induction xs) (auto simp: set_cursor_sort_insert)

lemma distinct_cursor_sort:
  "distinct (map f (cursor_sort cmp xs)) = distinct (map f xs)"
  by (induction xs) (auto simp: distinct_cursor_sort_insert set_cursor_sort)

lemma multicursor_remove_duplicates_distinct:
  assumes "distinct (map (\<lambda>c. (line c, column c)) (cursors E))"
    and "\<forall>c\<in>set (cursors E). \<not> (line c = cursor_y E \<and> column c = cursor_x E)"
  shows "cursors (multicursor_remove_duplicates E) = cursor_sort cursor_cmp_forward (cursors E)"
proof (cases "cursors E")
  case Nil
  then show ?thesis by (simp add: multicursor_remove_duplicates_def)
next
  case (Cons c cs)
  have d: "drop_primary_overlap (cursor_y E) (cursor_x E) (allow_primary_overlap E) False (cursors E)
             = cursors E"
    using assms(2) by (rule drop_primary_overlap_none)
  show ?thesis
  proof (cases "length (cursors E) \<le> 1")
    case True
    with Cons have "cs = []" by simp
    then show ?thesis using Cons d by (simp add: multicursor_remove_duplicates_def)
  next
    case False
    let ?s = "cursor_sort cursor_cmp_forward (cursors E)"
    have ds: "distinct (map (\<lambda>c. (line c, column c)) ?s)"
      using assms(1) by (simp add: distinct_cursor_sort)
    have "?s \<noteq> []" using Cons length_cursor_sort[of cursor_cmp_forward "cursors E"] by auto
    then obtain x xs where s: "?s = x # xs" by (cases ?s) auto
    have "collapse_adjacent x xs = xs" using ds s collapse_adjacent_distinct by simp
    then show ?thesis
      using False Cons d s by (simp add: multicursor_remove_duplicates_def)
  qed
qed

lemma set_drop_primary_overlap:
  "x \<in> set (drop_primary_overlap cy cx allow kept cs) \<Longrightarrow> x \<in> set cs"
  by (induction cs arbitrary: kept) (auto split: if_splits)

lemma set_collapse_adjacent: "x \<in> set (collapse_adjacent prev cs) \<Longrightarrow> x \<in> set cs"
  by (induction cs arbitrary: prev) (auto split: if_splits)

lemma set_multicursor_remove_duplicates:
  "set (cursors (multicursor_remove_duplicates E)) \<subseteq> set (cursors E)"
proof (cases "cursors E = []")
  case True
  then show ?thesis by (simp add: multicursor_remove_duplicates_def)
next
  case False
  let ?cs1 = "drop_primary_overlap (cursor_y E) (cursor_x E) (allow_primary_overlap E) False (cursors E)"
  have s1: "set ?cs1 \<subseteq> set (cursors E)" using set_drop_primary_overlap by blast
  show ?thesis
  proof (cases "length ?cs1 \<le> 1")
    case True
    then show ?thesis using False s1 by (simp add: multicursor_remove_duplicates_def)
  next
    case l: False
    show ?thesis
    proof (cases "cursor_sort cursor_cmp_forward ?cs1")
      case Nil
      then show ?thesis using False l by (simp add: multicursor_remove_duplicates_def)
    next
      case (Cons c cs)
      have "set (c # collapse_adjacent c cs) \<subseteq> set (c # cs)"
        using set_collapse_adjacent[of _ c cs] by auto
      also have "set (c # cs) = set ?cs1" using Cons set_cursor_sort[of cursor_cmp_forward ?cs1] by simp
      finally have "set (c # collapse_adjacent c cs) \<subseteq> set (cursors E)" using s1 by blast
      then show ?thesis using False l Cons by (simp add: multicursor_remove_duplicates_def)
    qed
  qed
qed

subsection \<open>The rebasing rule keeps distinct positions distinct\<close>

lemma length_filter_mono:
  "(\<And>x. x \<in> set xs \<Longrightarrow> P x \<Longrightarrow> Q x) \<Longrightarrow> length (filter P xs) \<le> length (filter Q xs)"
  by (induction xs) auto

lemma rebase_column_line: "line (rebase_column ps c) = line c"
  by (simp add: rebase_column_def)

lemma rebase_column_mono:
  assumes "line p = line q" and "column p < column q"
  shows "column (rebase_column ps p) < column (rebase_column ps q)"
proof -
  have "length (filter (\<lambda>r. line r = line p \<and> column r \<le> column p) ps)
          \<le> length (filter (\<lambda>r. line r = line q \<and> column r \<le> column q) ps)"
    using assms by (intro length_filter_mono) auto
  then show ?thesis using assms by (simp add: rebase_column_def)
qed

lemma rebase_column_position_inj:
  assumes "line (rebase_column ps p) = line (rebase_column ps q)"
    and "column (rebase_column ps p) = column (rebase_column ps q)"
  shows "line p = line q \<and> column p = column q"
proof -
  have l: "line p = line q" using assms(1) by (simp add: rebase_column_line)
  have "\<not> column p < column q" using rebase_column_mono[OF l, of ps] assms(2) by auto
  moreover have "\<not> column q < column p" using rebase_column_mono[OF l[symmetric], of ps] assms(2) by auto
  ultimately show ?thesis using l by simp
qed

lemma distinct_positions_rebase:
  "distinct (map (\<lambda>c. (line c, column c)) cs) \<Longrightarrow>
   distinct (map (\<lambda>c. (line c, column c)) (map (rebase_column ps) cs))"
proof (induction cs)
  case Nil
  then show ?case by simp
next
  case (Cons c cs)
  have "(line (rebase_column ps c), column (rebase_column ps c))
          \<notin> set (map (\<lambda>c. (line c, column c)) (map (rebase_column ps) cs))"
  proof
    assume "(line (rebase_column ps c), column (rebase_column ps c))
          \<in> set (map (\<lambda>c. (line c, column c)) (map (rebase_column ps) cs))"
    then obtain d where d: "d \<in> set cs" "line (rebase_column ps c) = line (rebase_column ps d)"
        "column (rebase_column ps c) = column (rebase_column ps d)" by auto
    then have "line c = line d \<and> column c = column d" using rebase_column_position_inj by blast
    then have "(line c, column c) \<in> set (map (\<lambda>c. (line c, column c)) cs)" using d(1) by force
    then show False using Cons.prems by simp
  qed
  then show ?case using Cons by simp
qed

subsection \<open>The order of the cursors does not matter to the rows\<close>

lemma pad_rows_sort: "pad_rows css (cursor_sort cmp ps) = pad_rows css ps"
  by (simp add: pad_rows_def list_ex_iff set_cursor_sort)

lemma spec_insert_rows_sort:
  "spec_insert_rows css (cursor_sort cmp ps) ch = spec_insert_rows css ps ch"
proof -
  have "\<And>l. spec_insert 0 (pad_rows css ps ! l) (columns_on (cursor_sort cmp ps) l) ch =
             spec_insert 0 (pad_rows css ps ! l) (columns_on ps l) ch"
    by (rule spec_insert_count_cong) (simp add: columns_on_def count_cursor_sort)
  then show ?thesis by (simp add: spec_insert_rows_def pad_rows_sort)
qed

lemma checked_alloc_frame:
  "row (snd (checked_alloc E)) = row E \<and>
   cursor_x (snd (checked_alloc E)) = cursor_x E \<and>
   cursor_y (snd (checked_alloc E)) = cursor_y E \<and>
   cursors (snd (checked_alloc E)) = cursors E \<and>
   allow_primary_overlap (snd (checked_alloc E)) = allow_primary_overlap E \<and>
   selection (snd (checked_alloc E)) = selection E"
  by (simp add: checked_alloc_def)

text \<open>
  Claim C1, as the code has it. With at least one secondary cursor, no active selection and
  both allocations of the function succeeding, \<open>multicursor_insert_char\<close> returns a state in
  which the primary cursor stays on its line and every cursor's column is the original column
  plus the number of original cursors (primary and secondaries) on the same line whose column
  is not larger, the sum taken in \<open>int\<close>; the secondary cursors then pass through
  \<open>multicursor_remove_duplicates\<close>, which keeps only cursors moved in this way. When the
  lines and columns are non-negative and no new column exceeds \<open>INT_MAX\<close>, the sum is exact,
  and for pairwise distinct original positions the secondaries are the moved cursors sorted
  into document order. When moreover every
  cursor stands inside the buffer, the insert loop leaves rows that hold, before each column,
  one copy of the character for every cursor at that column; these are the final rows, except
  that for \<open>'}'\<close> the auto-unindent pass then runs on them.
\<close>

theorem multicursor_insert_char_rebase:
  assumes "cursors E \<noteq> []" and "\<not> active (selection E)"
    and "alloc_ok E (alloc_calls E)" and "alloc_ok E (Suc (alloc_calls E))"
  shows "\<exists>E'. multicursor_insert_char ch E = Some E' \<and>
     cursor_y E' = cursor_y E \<and>
     cursor_x E' = column (rebase_column_int (all_positions E) (primary_cursor E)) \<and>
     set (cursors E') \<subseteq> rebase_column_int (all_positions E) ` set (cursors E) \<and>
     (positions_in_int_range (all_positions E) \<longrightarrow>
        cursor_x E' = column (rebase_column (all_positions E) (primary_cursor E)) \<and>
        cursors E' = cursors (multicursor_remove_duplicates
                       (E\<lparr>cursor_x := column (rebase_column (all_positions E) (primary_cursor E)),
                          cursors := map (rebase_column (all_positions E)) (cursors E)\<rparr>)) \<and>
        (distinct_positions (all_positions E) \<longrightarrow>
           cursors E' = cursor_sort cursor_cmp_forward
                          (map (rebase_column (all_positions E)) (cursors E))) \<and>
        (cursors_in_bounds E \<longrightarrow>
           (\<exists>E2. map chars (row E2) = spec_insert_rows (map chars (row E)) (all_positions E) ch \<and>
                 row E' = (if ch = CHR ''}''
                           then row (fst (fold unindent_step [0..<length (all_positions E)]
                                            (E2, cursor_sort cursor_cmp_reverse (all_positions E))))
                           else row E2))))"
proof -
  define ps where "ps = all_positions E"
  define Ea where "Ea = snd (checked_alloc E)"
  define Eb where "Eb = snd (checked_alloc Ea)"
  define orig where "orig = cursor_sort cursor_cmp_reverse ps"
  define E1 where "E1 = undo_start_new_group Eb"
  define E2 where "E2 = fold (insert_at_cursor ch) orig E1"
  define S3 where "S3 = (if ch = CHR ''}'' then fold unindent_step [0..<length orig] (E2, orig)
                         else (E2, orig))"
  define E4 where "E4 = restore_primary_column orig (rebased_columns orig (snd S3)) (fst S3)"
  define E5 where "E5 = restore_secondary_columns orig (rebased_columns orig (snd S3)) E4"
  define nx where "nx = column (rebase_column_int ps (primary_cursor E))"
  define ncs where "ncs = map (rebase_column_int ps) (cursors E)"
  define mx where "mx = column (rebase_column ps (primary_cursor E))"
  define mcs where "mcs = map (rebase_column ps) (cursors E)"

  have collect: "multicursor_collect_all True E = (Some orig, Ea)"
    using assms(3)
    by (simp add: multicursor_collect_all_def checked_alloc_def Ea_def orig_def ps_def
          all_positions_def primary_cursor_def)
  have alloc: "checked_alloc Ea = (True, Eb)"
    using assms(4) by (simp add: checked_alloc_def Ea_def Eb_def)
  have res: "multicursor_insert_char ch E = Some (multicursor_remove_duplicates E5)"
    using assms(1,2) collect alloc
    by (simp add: multicursor_insert_char_def Let_def case_prod_beta E5_def E4_def S3_def
          E2_def E1_def)

  have fEb: "row Eb = row E \<and> cursor_x Eb = cursor_x E \<and> cursor_y Eb = cursor_y E \<and>
             cursors Eb = cursors E \<and> allow_primary_overlap Eb = allow_primary_overlap E \<and>
             selection Eb = selection E"
    by (simp add: Eb_def Ea_def checked_alloc_frame)
  have fE1: "row E1 = row E \<and> cursor_x E1 = cursor_x E \<and> cursor_y E1 = cursor_y E \<and>
             cursors E1 = cursors E \<and> allow_primary_overlap E1 = allow_primary_overlap E \<and>
             selection E1 = selection E"
    using fEb by (simp add: E1_def undo_start_new_group_def)
  have fE2: "cursor_x E2 = cursor_x E \<and> cursor_y E2 = cursor_y E \<and>
             cursors E2 = cursors E \<and> allow_primary_overlap E2 = allow_primary_overlap E \<and>
             selection E2 = selection E"
    using fE1 by (simp add: E2_def fold_insert_at_cursor_frame)
  have fS3: "cursor_x (fst S3) = cursor_x E \<and> cursor_y (fst S3) = cursor_y E \<and>
             cursors (fst S3) = cursors E \<and> allow_primary_overlap (fst S3) = allow_primary_overlap E \<and>
             selection (fst S3) = selection E \<and> length (snd S3) = length orig"
    using fE2 by (simp add: S3_def fold_unindent_step_frame)

  have set_orig: "set orig = set ps" by (simp add: orig_def set_cursor_sort)
  have len: "length (snd S3) = length orig" using fS3 by simp
  have prim: "primary_cursor (fst S3) = primary_cursor E"
    using fS3 by (simp add: primary_cursor_def)
  have prim_in: "primary_cursor (fst S3) \<in> set orig"
    using prim set_orig by (simp add: ps_def all_positions_def)
  have rb: "rebase_column_int orig = rebase_column_int ps"
    by (rule ext) (simp add: orig_def rebase_column_int_sort)
  have E4: "E4 = (fst S3)\<lparr>cursor_x := nx\<rparr>"
    unfolding E4_def nx_def
    using restore_primary_column_x[OF len prim_in] prim rb by simp
  have sub: "set (cursors E4) \<subseteq> set orig"
    using fS3 set_orig by (auto simp: E4 ps_def all_positions_def)
  have E5: "E5 = E4\<lparr>cursors := ncs\<rparr>"
    unfolding E5_def ncs_def
    using restore_secondary_columns_map[OF len sub] rb fS3 by (simp add: E4)

  have f5: "cursor_y E5 = cursor_y E \<and> cursor_x E5 = nx \<and> cursors E5 = ncs \<and>
            allow_primary_overlap E5 = allow_primary_overlap E \<and> row E5 = row (fst S3)"
    using fS3 by (simp add: E5 E4)

  let ?E' = "multicursor_remove_duplicates E5"
  have c1: "cursor_y ?E' = cursor_y E" and c2: "cursor_x ?E' = nx"
    using f5 by (simp_all add: multicursor_remove_duplicates_frame)
  have c3: "cursors ?E' = cursors (multicursor_remove_duplicates (E\<lparr>cursor_x := nx, cursors := ncs\<rparr>))"
    using f5 by (intro multicursor_remove_duplicates_cong) simp_all
  have c7: "set (cursors ?E') \<subseteq> rebase_column_int ps ` set (cursors E)"
    using set_multicursor_remove_duplicates[of E5] f5 by (simp add: ncs_def)
  have c6: "positions_in_int_range ps \<longrightarrow>
        cursor_x ?E' = mx \<and>
        cursors ?E' = cursors (multicursor_remove_duplicates (E\<lparr>cursor_x := mx, cursors := mcs\<rparr>)) \<and>
        (distinct_positions ps \<longrightarrow> cursors ?E' = cursor_sort cursor_cmp_forward mcs) \<and>
        (cursors_in_bounds E \<longrightarrow>
          (\<exists>E2. map chars (row E2) = spec_insert_rows (map chars (row E)) ps ch \<and>
              row ?E' = (if ch = CHR ''}''
                        then row (fst (fold unindent_step [0..<length ps]
                                         (E2, cursor_sort cursor_cmp_reverse ps)))
                        else row E2)))"
  proof
    assume "positions_in_int_range ps"
    then have rg: "\<forall>c\<in>set ps. 0 \<le> line c \<and> line c \<le> INT_MAX \<and> 0 \<le> column c \<and>
                      column (rebase_column ps c) \<le> INT_MAX"
      by (simp add: positions_in_int_range_def list_all_iff)
    have ex: "\<And>c. c \<in> set ps \<Longrightarrow> rebase_column_int ps c = rebase_column ps c"
      using rg by (intro rebase_column_int_exact) auto
    have nm: "nx = mx"
      unfolding nx_def mx_def using ex[of "primary_cursor E"] by (simp add: ps_def all_positions_def)
    have ncm: "ncs = mcs"
      unfolding ncs_def mcs_def using ex by (intro map_cong) (auto simp: ps_def all_positions_def)
    have rg2: "\<forall>c\<in>set ps. 0 \<le> line c \<and> line c \<le> INT_MAX \<and> 0 \<le> column c \<and> column c \<le> INT_MAX"
    proof
      fix c assume c: "c \<in> set ps"
      have "column c \<le> column (rebase_column ps c)" by (simp add: rebase_column_def)
      then show "0 \<le> line c \<and> line c \<le> INT_MAX \<and> 0 \<le> column c \<and> column c \<le> INT_MAX"
        using rg c by force
    qed
    have k1: "cursor_x ?E' = mx" using c2 nm by simp
    have k2: "cursors ?E' = cursors (multicursor_remove_duplicates (E\<lparr>cursor_x := mx, cursors := mcs\<rparr>))"
      using c3 nm ncm by simp
    have k3: "distinct_positions ps \<longrightarrow> cursors ?E' = cursor_sort cursor_cmp_forward mcs"
    proof
      assume "distinct_positions ps"
      then have d: "distinct (map (\<lambda>c. (line c, column c)) (map (rebase_column ps) ps))"
        unfolding distinct_positions_def by (rule distinct_positions_rebase)
      have p: "map (rebase_column ps) ps = rebase_column ps (primary_cursor E) # mcs"
        by (simp add: ps_def all_positions_def mcs_def)
      have d1: "distinct (map (\<lambda>c. (line c, column c)) (cursors E5))"
        using d p f5 ncm by simp
      have l: "line (rebase_column ps (primary_cursor E)) = cursor_y E"
        by (simp add: rebase_column_line primary_cursor_def)
      have "(line (rebase_column ps (primary_cursor E)), column (rebase_column ps (primary_cursor E)))
              \<notin> set (map (\<lambda>c. (line c, column c)) mcs)"
        using d unfolding p by simp
      then have "(cursor_y E, mx) \<notin> (\<lambda>c. (line c, column c)) ` set mcs"
        unfolding l mx_def by simp
      then have "\<forall>c\<in>set mcs. \<not> (line c = cursor_y E \<and> column c = mx)"
        by (auto simp: image_iff)
      then have d2: "\<forall>c\<in>set (cursors E5). \<not> (line c = cursor_y E5 \<and> column c = cursor_x E5)"
        using f5 nm ncm by simp
      show "cursors ?E' = cursor_sort cursor_cmp_forward mcs"
        using multicursor_remove_duplicates_distinct[OF d1 d2] f5 ncm by simp
    qed
    have k4: "cursors_in_bounds E \<longrightarrow>
          (\<exists>E2. map chars (row E2) = spec_insert_rows (map chars (row E)) ps ch \<and>
              row ?E' = (if ch = CHR ''}''
                        then row (fst (fold unindent_step [0..<length ps]
                                         (E2, cursor_sort cursor_cmp_reverse ps)))
                        else row E2))"
    proof
      assume "cursors_in_bounds E"
      then have b: "\<forall>c\<in>set orig. cursor_in_bounds (map chars (row E)) c"
        using set_orig by (simp add: cursors_in_bounds_def list_all_iff ps_def)
      have s: "sorted_desc orig" unfolding orig_def using rg2 by (rule sorted_desc_cursor_sort)
      have "map chars (row E2) = fold (chars_insert_at ch) orig (map chars (row E))"
        using fE1 by (simp add: E2_def chars_fold_insert_at_cursor)
      also have "\<dots> = spec_insert_rows (map chars (row E)) orig ch"
        using s b by (rule fold_chars_insert_at_spec)
      also have "\<dots> = spec_insert_rows (map chars (row E)) ps ch"
        by (simp add: orig_def spec_insert_rows_sort)
      finally have r2: "map chars (row E2) = spec_insert_rows (map chars (row E)) ps ch" .
      have "row ?E' = row (fst S3)"
        using f5 by (simp add: multicursor_remove_duplicates_frame)
      also have "\<dots> = (if ch = CHR ''}''
                          then row (fst (fold unindent_step [0..<length ps]
                                           (E2, cursor_sort cursor_cmp_reverse ps)))
                          else row E2)"
        by (simp add: S3_def orig_def length_cursor_sort)
      finally show "\<exists>E2. map chars (row E2) = spec_insert_rows (map chars (row E)) ps ch \<and>
                row ?E' = (if ch = CHR ''}''
                          then row (fst (fold unindent_step [0..<length ps]
                                           (E2, cursor_sort cursor_cmp_reverse ps)))
                          else row E2)"
        using r2 by blast
    qed
    show "cursor_x ?E' = mx \<and>
        cursors ?E' = cursors (multicursor_remove_duplicates (E\<lparr>cursor_x := mx, cursors := mcs\<rparr>)) \<and>
        (distinct_positions ps \<longrightarrow> cursors ?E' = cursor_sort cursor_cmp_forward mcs) \<and>
        (cursors_in_bounds E \<longrightarrow>
          (\<exists>E2. map chars (row E2) = spec_insert_rows (map chars (row E)) ps ch \<and>
              row ?E' = (if ch = CHR ''}''
                        then row (fst (fold unindent_step [0..<length ps]
                                         (E2, cursor_sort cursor_cmp_reverse ps)))
                        else row E2)))"
      using k1 k2 k3 k4 by blast
  qed
  show ?thesis
    using res c1 c2 c7 c6 unfolding nx_def ncs_def mx_def mcs_def ps_def by blast
qed

theorem multicursor_insert_char_rebase_witness:
  "(\<exists>E'. multicursor_insert_char CHR ''x'' three_cursors = Some E' \<and>
         map chars (row E') = [''xfoo'', ''xbar'', ''xbaz''] \<and>
         cursor_y E' = 0 \<and> cursor_x E' = 1 \<and>
         map (\<lambda>c. (line c, column c)) (cursors E') = [(1, 1), (2, 1)]) \<and>
   map_option (\<lambda>E'. map chars (row E'))
     (Option.bind (multicursor_insert_char CHR ''x'' three_cursors) editor_undo)
     = Some [''foo'', ''bar'', ''baz'']"
proof -
  have a1: "cursors three_cursors \<noteq> []" by code_simp
  have a2: "\<not> active (selection three_cursors)" by code_simp
  have a3: "alloc_ok three_cursors (alloc_calls three_cursors)" by code_simp
  have a4: "alloc_ok three_cursors (Suc (alloc_calls three_cursors))" by code_simp
  have a5: "distinct_positions (all_positions three_cursors)" by code_simp
  have a6: "cursors_in_bounds three_cursors" by code_simp
  have a7: "positions_in_int_range (all_positions three_cursors)" by code_simp
  have v0: "cursor_y three_cursors = 0" by code_simp
  have v1: "column (rebase_column (all_positions three_cursors) (primary_cursor three_cursors)) = 1"
    by code_simp
  have v2: "map (\<lambda>c. (line c, column c))
              (cursor_sort cursor_cmp_forward
                 (map (rebase_column (all_positions three_cursors)) (cursors three_cursors)))
            = [(1, 1), (2, 1)]"
    by code_simp
  have v3: "spec_insert_rows (map chars (row three_cursors)) (all_positions three_cursors) CHR ''x''
            = [''xfoo'', ''xbar'', ''xbaz'']"
    by code_simp
  from multicursor_insert_char_rebase[OF a1 a2 a3 a4, of "CHR ''x''"] a7
  obtain E' where r: "multicursor_insert_char CHR ''x'' three_cursors = Some E'"
    and y: "cursor_y E' = cursor_y three_cursors"
    and x: "cursor_x E' = column (rebase_column (all_positions three_cursors) (primary_cursor three_cursors))"
    and d: "distinct_positions (all_positions three_cursors) \<longrightarrow>
        cursors E' = cursor_sort cursor_cmp_forward
                       (map (rebase_column (all_positions three_cursors)) (cursors three_cursors))"
    and b: "cursors_in_bounds three_cursors \<longrightarrow>
        (\<exists>E2. map chars (row E2) = spec_insert_rows (map chars (row three_cursors))
                                     (all_positions three_cursors) CHR ''x'' \<and>
              row E' = (if CHR ''x'' = CHR ''}''
                        then row (fst (fold unindent_step [0..<length (all_positions three_cursors)]
                                         (E2, cursor_sort cursor_cmp_reverse (all_positions three_cursors))))
                        else row E2))"
    by blast
  have rows: "map chars (row E') = [''xfoo'', ''xbar'', ''xbaz'']"
    using b a6 v3 by auto
  have cs: "map (\<lambda>c. (line c, column c)) (cursors E') = [(1, 1), (2, 1)]"
    using d a5 v2 by simp
  have 1: "\<exists>E'. multicursor_insert_char CHR ''x'' three_cursors = Some E' \<and>
         map chars (row E') = [''xfoo'', ''xbar'', ''xbaz''] \<and>
         cursor_y E' = 0 \<and> cursor_x E' = 1 \<and>
         map (\<lambda>c. (line c, column c)) (cursors E') = [(1, 1), (2, 1)]"
    using r rows cs y x v0 v1 by simp
  have 2: "map_option (\<lambda>E'. map chars (row E'))
     (Option.bind (multicursor_insert_char CHR ''x'' three_cursors) editor_undo)
     = Some [''foo'', ''bar'', ''baz'']"
    by code_simp
  show ?thesis using 1 2 by blast
qed

theorem multicursor_insert_char_rebase_counterexample:
  "map_option cursor_view (multicursor_insert_char CHR ''x'' selection_and_secondary)
     = Some ([''ax'', ''xdef''], (0, 2), [(1, 1)]) \<and>
   column (rebase_column (all_positions selection_and_secondary)
             (primary_cursor selection_and_secondary)) = 4 \<and>
   map_option cursor_view typed_and_undone = Some ([''a'', ''b''], (0, 0), [(1, 2)]) \<and>
   map_option cursors_in_bounds typed_and_undone = Some False \<and>
   map_option cursor_view (Option.bind typed_and_undone (multicursor_insert_char CHR ''x''))
     = Some ([''xa'', ''bx''], (0, 1), [(1, 3)]) \<and>
   map_option (\<lambda>E. spec_insert_rows (map chars (row E)) (all_positions E) CHR ''x'') typed_and_undone
     = Some [''xa'', ''b''] \<and>
   map_option cursor_view (multicursor_insert_char CHR ''x'' secondary_at_int_max)
     = Some ([''xax''], (0, 1), [(0, - 2147483647)]) \<and>
   map (\<lambda>c. column (rebase_column (all_positions secondary_at_int_max) c))
       (cursors secondary_at_int_max) = [2147483649]"
proof -
  have 1: "map_option cursor_view (multicursor_insert_char CHR ''x'' selection_and_secondary)
     = Some ([''ax'', ''xdef''], (0, 2), [(1, 1)])" by code_simp
  have 2: "column (rebase_column (all_positions selection_and_secondary)
             (primary_cursor selection_and_secondary)) = 4" by code_simp
  have 3: "map_option cursor_view typed_and_undone = Some ([''a'', ''b''], (0, 0), [(1, 2)])"
    by code_simp
  have 4: "map_option cursors_in_bounds typed_and_undone = Some False" by code_simp
  have 5: "map_option cursor_view (Option.bind typed_and_undone (multicursor_insert_char CHR ''x''))
     = Some ([''xa'', ''bx''], (0, 1), [(1, 3)])" by code_simp
  have 6: "map_option (\<lambda>E. spec_insert_rows (map chars (row E)) (all_positions E) CHR ''x'') typed_and_undone
     = Some [''xa'', ''b'']" by code_simp
  have 7: "map_option cursor_view (multicursor_insert_char CHR ''x'' secondary_at_int_max)
     = Some ([''xax''], (0, 1), [(0, - 2147483647)])" by code_simp
  have 8: "map (\<lambda>c. column (rebase_column (all_positions secondary_at_int_max) c))
       (cursors secondary_at_int_max) = [2147483649]" by code_simp
  show ?thesis using 1 2 3 4 5 6 7 8 by blast
qed

section \<open>Undo after a newline with auto-indent\<close>

text \<open>
  Claim C2 at a concrete edit. The buffer holds the single row \<open>"  ab"\<close> and the cursor
  stands at column 3. Enter splits the row and indents the new row (\<open>"  a"\<close>, \<open>"  b"\<close>),
  logging one \<open>row-split\<close> entry, one undo group. One undo joins the two rows but keeps the
  indentation that the split added: the buffer is \<open>"  a  b"\<close>, not \<open>"  ab"\<close>. A redo after
  that undo does not reach the post-edit buffer either.
\<close>

theorem undo_newline_keeps_indent:
  "map chars (row indented_line) = [''  ab''] \<and>
   map_option (\<lambda>E. (map chars (row E), undo_position E, undo_group_id E))
     (editor_insert_newline indented_line) = Some ([''  a'', ''  b''], 1, 1) \<and>
   map_option (\<lambda>E. (map chars (row E), undo_position E))
     (Option.bind (editor_insert_newline indented_line) editor_undo) = Some ([''  a  b''], 0) \<and>
   map_option (\<lambda>E. (map chars (row E), undo_position E))
     (Option.bind (Option.bind (editor_insert_newline indented_line) editor_undo) editor_redo)
     = Some ([''  a'', ''    b''], 1)"
  by code_simp

theorem undo_newline_keeps_indent_witness:
  "map_option (\<lambda>E. (map chars (row E), undo_position E))
     (Option.bind (editor_insert_newline indented_line) editor_undo)
     \<noteq> Some (map chars (row indented_line), 0)"
proof -
  have a: "map_option (\<lambda>E. (map chars (row E), undo_position E))
     (Option.bind (editor_insert_newline indented_line) editor_undo) = Some ([''  a  b''], 0)"
    using undo_newline_keeps_indent by blast
  have b: "map chars (row indented_line) = [''  ab'']"
    using undo_newline_keeps_indent by blast
  show ?thesis unfolding a b by simp
qed

section \<open>File round trip\<close>

lemma editor_rows_to_string_concat:
  "editor_rows_to_string E = concat (map (\<lambda>r. chars r @ [LF]) (row E))"
  unfolding editor_rows_to_string_def
  using foldl_append_concat[of "\<lambda>r. chars r @ [LF]" "[]" "row E"] by simp

lemma read_line_LF:
  "LF \<notin> set l \<Longrightarrow> read_line (l @ LF # rest) = (l @ [LF], rest)"
  by (induction l) auto

lemma trim_crlf_LF: "trim_crlf (l @ [LF]) = trim_crlf l"
  by (simp add: trim_crlf_def)

lemma trim_crlf_id:
  "l = [] \<or> (last l \<noteq> CR \<and> last l \<noteq> LF) \<Longrightarrow> trim_crlf l = l"
  by (cases l rule: rev_cases) (auto simp: trim_crlf_def)

lemma editor_insert_row_end:
  "row (editor_insert_row (row_count E) s E) = row E @ [editor_update_row \<lparr>chars = s, render = []\<rparr>]"
  by (simp add: editor_insert_row_def row_count_def)

lemma editor_open_loop_lines:
  "\<forall>l\<in>set ls. LF \<notin> set l \<Longrightarrow>
   map chars (row (editor_open_loop (concat (map (\<lambda>l. l @ [LF]) ls)) E)) =
     map chars (row E) @ map trim_crlf ls"
proof (induction ls arbitrary: E)
  case Nil
  then show ?case by (simp add: editor_open_loop.simps[of "[]"] getline_def)
next
  case (Cons l ls)
  let ?rest = "concat (map (\<lambda>l. l @ [LF]) ls)"
  have "getline (l @ LF # ?rest) = Some (l @ [LF], ?rest)"
    using Cons.prems by (simp add: getline_def read_line_LF)
  then have "editor_open_loop (concat (map (\<lambda>l. l @ [LF]) (l # ls))) E =
      editor_open_loop ?rest (editor_insert_row (row_count E) (trim_crlf (l @ [LF])) E)"
    by (simp add: editor_open_loop.simps[of "l @ LF # ?rest"])
  then show ?case
    using Cons by (simp add: editor_insert_row_end trim_crlf_LF editor_update_row_def)
qed

lemma split_lines_read_line:
  "acc @ input \<noteq> [] \<Longrightarrow>
   map trim_crlf (split_lines acc input) =
     trim_crlf (acc @ fst (read_line input)) # map trim_crlf (split_lines [] (snd (read_line input)))"
proof (induction input arbitrary: acc)
  case Nil
  then show ?case by simp
next
  case (Cons c cs)
  show ?case
  proof (cases "c = LF")
    case True
    then show ?thesis using trim_crlf_LF[of acc] by simp
  next
    case False
    have "(acc @ [c]) @ cs \<noteq> []" by simp
    from Cons.IH[OF this] False show ?thesis by (simp add: case_prod_beta)
  qed
qed

lemma editor_open_loop_file_lines:
  "map chars (row (editor_open_loop input E)) =
     map chars (row E) @ map trim_crlf (file_lines input)"
proof (induction input arbitrary: E rule: length_induct)
  case (1 input)
  show ?case
  proof (cases "input = []")
    case True
    then show ?thesis
      by (simp add: editor_open_loop.simps[of "[]"] getline_def file_lines_def)
  next
    case False
    obtain l rest where lr: "read_line input = (l, rest)" by (cases "read_line input")
    have sh: "length rest < length input" using read_line_shorter[OF False] lr by simp
    have g: "getline input = Some (l, rest)" using False lr by (simp add: getline_def)
    have "editor_open_loop input E =
            editor_open_loop rest (editor_insert_row (row_count E) (trim_crlf l) E)"
      using g by (subst editor_open_loop.simps) simp
    then have "map chars (row (editor_open_loop input E)) =
        map chars (row (editor_insert_row (row_count E) (trim_crlf l) E))
          @ map trim_crlf (file_lines rest)"
      using 1 sh by simp
    also have "\<dots> = map chars (row E) @ trim_crlf l # map trim_crlf (file_lines rest)"
      by (simp add: editor_insert_row_end editor_update_row_def)
    also have "trim_crlf l # map trim_crlf (file_lines rest) = map trim_crlf (file_lines input)"
      using split_lines_read_line[of "[]" input] False lr by (simp add: file_lines_def)
    finally show ?thesis .
  qed
qed

lemma split_lines_no_LF:
  "LF \<notin> set l \<Longrightarrow> split_lines acc (l @ rest) = split_lines (acc @ l) rest"
  by (induction l arbitrary: acc) auto

lemma file_lines_terminated:
  "\<forall>l\<in>set ls. LF \<notin> set l \<Longrightarrow> LF \<notin> set r \<Longrightarrow>
   file_lines (concat (map (\<lambda>l. l @ [LF]) ls) @ r) = ls @ (if r = [] then [] else [r])"
proof (induction ls)
  case Nil
  then show ?case
    using split_lines_no_LF[of r "[]" "[]"] by (simp add: file_lines_def)
next
  case (Cons l ls)
  have "split_lines [] (l @ LF # concat (map (\<lambda>l. l @ [LF]) ls) @ r) =
          split_lines l (LF # concat (map (\<lambda>l. l @ [LF]) ls) @ r)"
    using split_lines_no_LF[of l "[]"] Cons.prems(1) by simp
  then show ?case using Cons by (simp add: file_lines_def)
qed

text \<open>
  Claim C3, as the code has it. Saving writes each row's characters followed by exactly one
  \<open>'\n'\<close>. Opening any file appends one row per line of the file, a last line without
  \<open>'\n'\<close> included, with the trailing CR and LF characters of the line trimmed; the lines of
  a file made of \<open>'\n'\<close>-terminated pieces and a last piece are those pieces. Hence opening
  what was saved, into an empty buffer, reproduces the row sequence of every buffer whose
  rows contain no \<open>'\n'\<close> and do not end in \<open>'\r'\<close>; a trailing \<open>'\r'\<close> of a row is lost by
  the trim.
\<close>

theorem open_save_roundtrip:
  "editor_rows_to_string E = concat (map (\<lambda>r. chars r @ [LF]) (row E)) \<and>
   (\<exists>E'. editor_open (Some input) E0 = Some E' \<and>
         map chars (row E') = map chars (row E0) @ map trim_crlf (file_lines input)) \<and>
   ((\<forall>l\<in>set ls. LF \<notin> set l) \<and> LF \<notin> set r \<longrightarrow>
      file_lines (concat (map (\<lambda>l. l @ [LF]) ls) @ r) = ls @ (if r = [] then [] else [r])) \<and>
   ((\<forall>r\<in>set (row E). LF \<notin> set (chars r) \<and> (chars r = [] \<or> last (chars r) \<noteq> CR)) \<and> row E0 = [] \<longrightarrow>
      (\<exists>E'. editor_open (Some (editor_rows_to_string E)) E0 = Some E' \<and>
            map chars (row E') = map chars (row E)))"
proof (intro conjI impI)
  show "editor_rows_to_string E = concat (map (\<lambda>r. chars r @ [LF]) (row E))"
    by (rule editor_rows_to_string_concat)
next
  show "\<exists>E'. editor_open (Some input) E0 = Some E' \<and>
         map chars (row E') = map chars (row E0) @ map trim_crlf (file_lines input)"
    by (simp add: editor_open_def editor_open_loop_file_lines)
next
  assume "(\<forall>l\<in>set ls. LF \<notin> set l) \<and> LF \<notin> set r"
  then show "file_lines (concat (map (\<lambda>l. l @ [LF]) ls) @ r) = ls @ (if r = [] then [] else [r])"
    using file_lines_terminated[of ls r] by blast
next
  assume a: "(\<forall>r\<in>set (row E). LF \<notin> set (chars r) \<and> (chars r = [] \<or> last (chars r) \<noteq> CR)) \<and> row E0 = []"
  have s: "editor_rows_to_string E = concat (map (\<lambda>l. l @ [LF]) (map chars (row E)))"
    by (simp add: editor_rows_to_string_concat comp_def)
  have "\<forall>l\<in>set (map chars (row E)). LF \<notin> set l" using a by auto
  then have "map chars (row (editor_open_loop (editor_rows_to_string E) E0)) =
      map chars (row E0) @ map trim_crlf (map chars (row E))"
    unfolding s by (rule editor_open_loop_lines)
  moreover have "map trim_crlf (map chars (row E)) = map chars (row E)"
  proof -
    have "\<And>r. r \<in> set (row E) \<Longrightarrow> trim_crlf (chars r) = chars r"
    proof -
      fix r assume r: "r \<in> set (row E)"
      with a have n: "LF \<notin> set (chars r)" "chars r = [] \<or> last (chars r) \<noteq> CR" by auto
      have "chars r \<noteq> [] \<Longrightarrow> last (chars r) \<noteq> LF" using n(1) last_in_set by metis
      with n show "trim_crlf (chars r) = chars r" by (intro trim_crlf_id) auto
    qed
    then show ?thesis by simp
  qed
  ultimately show "\<exists>E'. editor_open (Some (editor_rows_to_string E)) E0 = Some E' \<and>
            map chars (row E') = map chars (row E)"
    using a by (simp add: editor_open_def)
qed

theorem open_save_roundtrip_witness:
  "(\<exists>E'. editor_open (Some (editor_rows_to_string (buffer_of [''foo'', '''', ''bar'']))) editor_init = Some E' \<and>
         map chars (row E') = [''foo'', '''', ''bar'']) \<and>
   (\<exists>E'. editor_open (Some (''a'' @ [CR, LF] @ ''b'')) editor_init = Some E' \<and>
         map chars (row E') = [''a'', ''b'']) \<and>
   file_lines (''a'' @ [CR, LF] @ ''b'') = [''a'' @ [CR], ''b'']"
proof -
  let ?E = "buffer_of [''foo'', '''', ''bar'']"
  let ?f = "''a'' @ [CR, LF] @ ''b''"
  have r: "map chars (row ?E) = [''foo'', '''', ''bar'']"
    by (simp add: buffer_of_def editor_init_def editor_update_row_def)
  have h: "(\<forall>r\<in>set (row ?E). LF \<notin> set (chars r) \<and> (chars r = [] \<or> last (chars r) \<noteq> CR)) \<and> row editor_init = []"
    by (simp add: buffer_of_def editor_init_def editor_update_row_def LF_def CR_def)
  have "\<exists>E'. editor_open (Some (editor_rows_to_string ?E)) editor_init = Some E' \<and>
         map chars (row E') = map chars (row ?E)"
    using open_save_roundtrip[of ?E ?f editor_init "[]" "[]"] h by blast
  then have 1: "\<exists>E'. editor_open (Some (editor_rows_to_string ?E)) editor_init = Some E' \<and>
         map chars (row E') = [''foo'', '''', ''bar'']"
    by (simp only: r)
  have l: "(\<forall>l\<in>set [''a'' @ [CR]]. LF \<notin> set l) \<and> LF \<notin> set ''b''" by (simp add: LF_def CR_def)
  have "file_lines (concat (map (\<lambda>l. l @ [LF]) [''a'' @ [CR]]) @ ''b'')
          = [''a'' @ [CR]] @ (if ''b'' = [] then [] else [''b''])"
    using open_save_roundtrip[of ?E ?f editor_init "[''a'' @ [CR]]" "''b''"] l by blast
  then have 3: "file_lines ?f = [''a'' @ [CR], ''b'']" by simp
  have "\<exists>E'. editor_open (Some ?f) editor_init = Some E' \<and>
         map chars (row E') = map chars (row editor_init) @ map trim_crlf (file_lines ?f)"
    using open_save_roundtrip[of ?E ?f editor_init "[]" "[]"] by blast
  then have 2: "\<exists>E'. editor_open (Some ?f) editor_init = Some E' \<and>
         map chars (row E') = [''a'', ''b'']"
    unfolding 3 by (simp add: editor_init_def trim_crlf_def LF_def CR_def)
  show ?thesis using 1 2 3 by blast
qed

theorem open_save_roundtrip_counterexample:
  "map chars (row (buffer_of [''a'' @ [CR]])) = [''a'' @ [CR]] \<and>
   editor_rows_to_string (buffer_of [''a'' @ [CR]]) = ''a'' @ [CR, LF] \<and>
   map_option (\<lambda>E'. map chars (row E'))
     (editor_open (Some (editor_rows_to_string (buffer_of [''a'' @ [CR]]))) editor_init) = Some [''a''] \<and>
   map_option (\<lambda>E'. map chars (row E'))
     (editor_open (Some (editor_rows_to_string (buffer_of [''a'' @ [CR]]))) editor_init)
     \<noteq> Some (map chars (row (buffer_of [''a'' @ [CR]])))"
proof -
  have r: "map chars (row (buffer_of [''a'' @ [CR]])) = [''a'' @ [CR]]"
    by (simp add: buffer_of_def editor_init_def editor_update_row_def)
  have s: "editor_rows_to_string (buffer_of [''a'' @ [CR]]) = ''a'' @ [CR, LF]"
    by (simp add: editor_rows_to_string_def buffer_of_def editor_init_def editor_update_row_def)
  have g: "getline (''a'' @ [CR, LF]) = Some (''a'' @ [CR, LF], [])"
    by (simp add: getline_def LF_def CR_def)
  have "editor_open_loop (''a'' @ [CR, LF]) editor_init =
      editor_insert_row (row_count editor_init) (trim_crlf (''a'' @ [CR, LF])) editor_init"
  proof -
    have "editor_open_loop (''a'' @ [CR, LF]) editor_init =
      editor_open_loop [] (editor_insert_row (row_count editor_init) (trim_crlf (''a'' @ [CR, LF])) editor_init)"
      using g by (subst editor_open_loop.simps) simp
    then show ?thesis
      by (simp add: editor_open_loop.simps[of "[]"] getline_def)
  qed
  then have "map chars (row (editor_open_loop (''a'' @ [CR, LF]) editor_init)) = [''a'']"
    by (simp add: editor_insert_row_end editor_init_def trim_crlf_def editor_update_row_def LF_def CR_def)
  then show ?thesis using r s by (simp add: editor_open_def)
qed

section \<open>Render mapper: the two conversions are inverse\<close>

lemma tab_advance_gt: "r < tab_advance r c"
proof -
  have "r mod 8 \<le> 7" by presburger
  then show ?thesis unfolding tab_advance_def MITER_TAB_STOP_def by simp
qed

lemma rcol_0: "rcol cs 0 = 0" by (simp add: rcol_def)

lemma rcol_Suc: "n < length cs \<Longrightarrow> rcol cs (Suc n) = tab_advance (rcol cs n) (cs ! n)"
  by (simp add: rcol_def take_Suc_conv_app_nth)

lemma c2r_loop_rcol:
  "i \<le> nat cx \<Longrightarrow> nat cx \<le> length cs \<Longrightarrow> 
   cursor_to_render_loop cs cx i (rcol cs i) = Some (rcol cs (nat cx))"
proof (induction "nat cx - i" arbitrary: i)
  case 0
  then have "\<not> int i < cx" "nat cx = i" by linarith+
  then show ?case by simp
next
  case (Suc d)
  then have lt: "int i < cx" "i < length cs" by linarith+
  have "cursor_to_render_loop cs cx i (rcol cs i) = cursor_to_render_loop cs cx (Suc i) (rcol cs (Suc i))"
    using lt by (simp add: chars_at_def rcol_Suc)
  also have "\<dots> = Some (rcol cs (nat cx))" using Suc lt by (intro Suc.hyps) linarith+
  finally show ?case .
qed

lemma c2r_rcol: "cx \<le> int (length (chars rw)) \<Longrightarrow> editor_row_cursor_to_render rw cx = Some (rcol (chars rw) (nat cx))"
  unfolding editor_row_cursor_to_render_def
  using c2r_loop_rcol[of 0 cx "chars rw"] by (simp add: rcol_0)

lemma rcol_mono: "a \<le> b \<Longrightarrow> b \<le> length cs \<Longrightarrow> rcol cs a \<le> rcol cs b"
proof (induction b)
  case 0 then show ?case by simp
next
  case (Suc b)
  show ?case
  proof (cases "a = Suc b")
    case True then show ?thesis by simp
  next
    case False
    with Suc have "rcol cs a \<le> rcol cs b" by simp
    also have "\<dots> < rcol cs (Suc b)" using Suc.prems by (simp add: rcol_Suc tab_advance_gt)
    finally show ?thesis by simp
  qed
qed

lemma rcol_strict: "a < b \<Longrightarrow> b \<le> length cs \<Longrightarrow> rcol cs a < rcol cs b"
  using rcol_mono[of "Suc a" b cs] tab_advance_gt[of "rcol cs a" "cs ! a"] rcol_Suc[of a cs]
  by simp

lemma r2c_loop_spec:
  "cx \<le> length cs \<Longrightarrow> rcol cs cx \<le> rx \<Longrightarrow>
   (\<exists>k. render_to_cursor_loop cs rx cx (rcol cs cx) = int k \<and> cx \<le> k \<and> k \<le> length cs \<and>
        rcol cs k \<le> rx \<and> (k < length cs \<longrightarrow> rx < rcol cs (Suc k)))"
proof (induction "length cs - cx" arbitrary: cx)
  case 0
  then show ?case by simp
next
  case (Suc d)
  then have lt: "cx < length cs" by linarith
  show ?case
  proof (cases "rx < rcol cs (Suc cx)")
    case True
    then show ?thesis using lt Suc.prems by (auto simp: rcol_Suc Let_def)
  next
    case False
    have "\<exists>k. render_to_cursor_loop cs rx (Suc cx) (rcol cs (Suc cx)) = int k \<and> Suc cx \<le> k \<and> k \<le> length cs \<and>
        rcol cs k \<le> rx \<and> (k < length cs \<longrightarrow> rx < rcol cs (Suc k))"
      using Suc False lt by (intro Suc.hyps) linarith+
    then obtain k where k: "render_to_cursor_loop cs rx (Suc cx) (rcol cs (Suc cx)) = int k" "Suc cx \<le> k" "k \<le> length cs"
        "rcol cs k \<le> rx" "k < length cs \<longrightarrow> rx < rcol cs (Suc k)" by blast
    have "render_to_cursor_loop cs rx cx (rcol cs cx) = int k"
      using lt False k(1) by (simp add: rcol_Suc Let_def)
    then show ?thesis using k by auto
  qed
qed

lemma tab_advance_tab: "0 \<le> r \<Longrightarrow> tab_advance r TAB = (r div 8 + 1) * 8"
  unfolding tab_advance_def MITER_TAB_STOP_def by (simp add: algebra_simps)

lemma rcol_nonneg: "n \<le> length cs \<Longrightarrow> 0 \<le> rcol cs n"
  using rcol_mono[of 0 n cs] by (simp add: rcol_0)

lemma c2r_step:
  assumes cx: "0 \<le> cx" "cx < int (length (chars rw))"
  shows "\<exists>r. editor_row_cursor_to_render rw cx = Some r \<and>
                editor_row_cursor_to_render rw (cx + 1) =
                  Some (if chars rw ! nat cx = TAB then (r div 8 + 1) * 8 else r + 1)"
proof -
  let ?cs = "chars rw"
  from cx have n: "nat cx < length ?cs" "nat (cx + 1) = Suc (nat cx)" by linarith+
  have "0 \<le> rcol ?cs (nat cx)" using n by (simp add: rcol_nonneg)
  then have "rcol ?cs (Suc (nat cx)) =
      (if ?cs ! nat cx = TAB then (rcol ?cs (nat cx) div 8 + 1) * 8 else rcol ?cs (nat cx) + 1)"
    using n(1) by (simp add: rcol_Suc tab_advance_tab) (simp add: tab_advance_def)
  then show ?thesis using cx n by (simp add: c2r_rcol)
qed

lemma r2c_spec:
  assumes rx: "0 \<le> rx"
  shows "\<exists>k. editor_row_render_to_cursor rw rx = int k \<and> k \<le> length (chars rw) \<and>
           rcol (chars rw) k \<le> rx \<and> (k < length (chars rw) \<longrightarrow> rx < rcol (chars rw) (Suc k))"
  using r2c_loop_spec[of 0 "chars rw" rx] rx
  unfolding editor_row_render_to_cursor_def by (auto simp: rcol_0)

lemma r2c_largest:
  assumes rx: "0 \<le> rx"
    and cx: "editor_row_render_to_cursor rw rx < cx" "cx \<le> int (length (chars rw))"
  shows "\<exists>r. editor_row_cursor_to_render rw cx = Some r \<and> rx < r"
proof -
  let ?cs = "chars rw"
  from r2c_spec[OF rx, of rw] obtain k where
    k: "editor_row_render_to_cursor rw rx = int k" "k \<le> length ?cs" "rcol ?cs k \<le> rx"
       "k < length ?cs \<longrightarrow> rx < rcol ?cs (Suc k)" by blast
  from cx k(1) have a: "Suc k \<le> nat cx" "nat cx \<le> length ?cs" by linarith+
  then have "rx < rcol ?cs (Suc k)" using k(4) by simp
  also have "\<dots> \<le> rcol ?cs (nat cx)" using a by (rule rcol_mono)
  finally show ?thesis using cx by (simp add: c2r_rcol)
qed

lemma r2c_span:
  assumes rx: "0 \<le> rx" and i: "i < length (chars rw)"
    and a: "editor_row_cursor_to_render rw (int i) = Some a"
    and b: "editor_row_cursor_to_render rw (int i + 1) = Some b"
    and ab: "a \<le> rx" "rx < b"
  shows "editor_row_render_to_cursor rw rx = int i"
proof -
  let ?cs = "chars rw"
  from r2c_spec[OF rx, of rw] obtain k where
    k: "editor_row_render_to_cursor rw rx = int k" "k \<le> length ?cs" "rcol ?cs k \<le> rx"
       "k < length ?cs \<longrightarrow> rx < rcol ?cs (Suc k)" by blast
  have "editor_row_cursor_to_render rw (int i) = Some (rcol ?cs (nat (int i)))"
    using i by (intro c2r_rcol) simp
  with a have ra: "rcol ?cs i = a" by simp
  have "editor_row_cursor_to_render rw (int i + 1) = Some (rcol ?cs (nat (int i + 1)))"
    using i by (intro c2r_rcol) simp
  moreover have "nat (int i + 1) = Suc i" by simp
  ultimately have rb: "rcol ?cs (Suc i) = b" using b by simp
  have "\<not> k < i"
  proof
    assume "k < i"
    then have "rcol ?cs (Suc k) \<le> rcol ?cs i" using i by (intro rcol_mono) simp_all
    moreover have "rx < rcol ?cs (Suc k)" using k(4) \<open>k < i\<close> i by simp
    ultimately show False using ra ab by simp
  qed
  moreover have "\<not> i < k"
  proof
    assume "i < k"
    then have "rcol ?cs (Suc i) \<le> rcol ?cs k" using k(2) by (intro rcol_mono) simp_all
    then show False using rb ab k(3) by simp
  qed
  ultimately show ?thesis using k(1) by simp
qed

text \<open>
  Claim C4. \<open>editor_row_cursor_to_render\<close> walks the raw characters \<open>0..cx\<close>: it starts at
  column 0, a tab moves the column to the next multiple of 8 and any other character moves
  it by one. \<open>editor_row_render_to_cursor\<close> is its inverse: for every target render column
  \<open>rx \<ge> 0\<close> the result is a cursor column of the row whose render column is at most \<open>rx\<close>,
  and every larger cursor column of the row has a render column above \<open>rx\<close>. In particular
  every render column inside the span of a tab maps back to the cursor column of that tab.
\<close>

theorem render_cursor_inverse:
  assumes rx: "0 \<le> rx"
  shows "editor_row_cursor_to_render rw 0 = Some 0 \<and>
    (\<forall>cx. 0 \<le> cx \<and> cx < int (length (chars rw)) \<longrightarrow>
       (\<exists>r. editor_row_cursor_to_render rw cx = Some r \<and>
            editor_row_cursor_to_render rw (cx + 1) =
              Some (if chars rw ! nat cx = TAB then (r div 8 + 1) * 8 else r + 1))) \<and>
    0 \<le> editor_row_render_to_cursor rw rx \<and>
    editor_row_render_to_cursor rw rx \<le> int (length (chars rw)) \<and>
    (\<exists>r. editor_row_cursor_to_render rw (editor_row_render_to_cursor rw rx) = Some r \<and> r \<le> rx) \<and>
    (\<forall>cx. editor_row_render_to_cursor rw rx < cx \<and> cx \<le> int (length (chars rw)) \<longrightarrow>
       (\<exists>r. editor_row_cursor_to_render rw cx = Some r \<and> rx < r)) \<and>
    (\<forall>i a b. i < length (chars rw) \<and> chars rw ! i = TAB \<and>
       editor_row_cursor_to_render rw (int i) = Some a \<and>
       editor_row_cursor_to_render rw (int i + 1) = Some b \<and> a \<le> rx \<and> rx < b \<longrightarrow>
       editor_row_render_to_cursor rw rx = int i)"
proof -
  from r2c_spec[OF rx, of rw] obtain k where
    k: "editor_row_render_to_cursor rw rx = int k" "k \<le> length (chars rw)"
       "rcol (chars rw) k \<le> rx" by blast
  have 1: "editor_row_cursor_to_render rw 0 = Some 0"
    by (simp add: c2r_rcol rcol_0)
  have 2: "0 \<le> editor_row_render_to_cursor rw rx \<and>
    editor_row_render_to_cursor rw rx \<le> int (length (chars rw))" using k by simp
  have 3: "\<exists>r. editor_row_cursor_to_render rw (editor_row_render_to_cursor rw rx) = Some r \<and> r \<le> rx"
    using k by (simp add: c2r_rcol)
  show ?thesis
    using 1 2 3 c2r_step[of _ rw] r2c_largest[OF rx, of rw] r2c_span[OF rx, of _ rw]
    by blast
qed

theorem render_cursor_inverse_witness:
  "editor_row_cursor_to_render \<lparr>chars = [CHR ''a'', TAB, CHR ''b''], render = ''a       b''\<rparr> 2 = Some 8 \<and>
   editor_row_render_to_cursor \<lparr>chars = [CHR ''a'', TAB, CHR ''b''], render = ''a       b''\<rparr> 7 = 1"
proof -
  let ?row = "\<lparr>chars = [CHR ''a'', TAB, CHR ''b''], render = ''a       b''\<rparr>"
  have rx: "(0::int) \<le> 7" by simp
  have c1: "editor_row_cursor_to_render ?row (int 1) = Some 1"
    by (simp add: editor_row_cursor_to_render_def chars_at_def tab_advance_def TAB_def)
  have c2: "editor_row_cursor_to_render ?row (int 1 + 1) = Some 8"
    by (simp add: editor_row_cursor_to_render_def chars_at_def tab_advance_def TAB_def MITER_TAB_STOP_def)
  from render_cursor_inverse[OF rx, of ?row]
  have "1 < length (chars ?row) \<and> chars ?row ! 1 = TAB \<and>
       editor_row_cursor_to_render ?row (int 1) = Some 1 \<and>
       editor_row_cursor_to_render ?row (int 1 + 1) = Some 8 \<and> (1::int) \<le> 7 \<and> (7::int) < 8 \<longrightarrow>
       editor_row_render_to_cursor ?row 7 = int 1"
    by blast
  then have "editor_row_render_to_cursor ?row 7 = int 1"
    using c1 c2 by simp
  then show ?thesis using c2 by simp
qed

section \<open>Undo log: the bound and the trimming\<close>

lemma takeWhile_snoc:
  "takeWhile P (xs @ [x]) =
     (if list_all P xs then (if P x then xs @ [x] else xs) else takeWhile P xs)"
  by (induction xs) auto

lemma length_takeWhile_all: "length (takeWhile P xs) = length xs \<longleftrightarrow> list_all P xs"
proof (induction xs)
  case Nil
  then show ?case by simp
next
  case (Cons x xs)
  have "length (takeWhile P xs) \<le> length xs" by (rule length_takeWhile_le)
  then show ?case using Cons by auto
qed

lemma clear_redo_loop_takeWhile:
  "n \<le> length st \<Longrightarrow>
   clear_redo_loop n st pos nc =
     (let k = length (takeWhile (\<lambda>e. group_id e \<le> pos) (take n st))
      in if k < n then k else nc)"
proof (induction n arbitrary: nc)
  case 0
  then show ?case by simp
next
  case (Suc n)
  let ?P = "\<lambda>e. group_id e \<le> pos"
  have tk: "take (Suc n) st = take n st @ [st ! n]"
    using Suc.prems by (simp add: take_Suc_conv_app_nth)
  have le: "length (takeWhile ?P (take n st)) \<le> n"
    using length_takeWhile_le[of ?P "take n st"] Suc.prems by simp
  have ln: "length (take n st) = n" using Suc.prems by simp
  show ?case
  proof (cases "list_all ?P (take n st)")
    case True
    then have "length (takeWhile ?P (take n st)) = n"
      using length_takeWhile_all[of ?P "take n st"] ln by simp
    then show ?thesis
      using Suc True ln by (simp add: tk takeWhile_snoc Let_def not_le)
  next
    case False
    then have "length (takeWhile ?P (take n st)) \<noteq> n"
      using length_takeWhile_all[of ?P "take n st"] ln by simp
    with le have "length (takeWhile ?P (take n st)) < n" by simp
    then show ?thesis
      using Suc False by (simp add: tk takeWhile_snoc Let_def)
  qed
qed

lemma clear_redo_loop_full:
  "take (clear_redo_loop (length st) st pos (length st)) st = takeWhile (\<lambda>e. group_id e \<le> pos) st"
proof -
  let ?P = "\<lambda>e. group_id e \<le> pos"
  have "clear_redo_loop (length st) st pos (length st) = length (takeWhile ?P st)"
    using length_takeWhile_le[of ?P st]
    by (auto simp: clear_redo_loop_takeWhile Let_def)
  moreover have "take (length (takeWhile ?P st)) st = takeWhile ?P st"
    by (metis append_eq_conv_conj takeWhile_dropWhile_id)
  ultimately show ?thesis by simp
qed

lemma undo_clear_redo_stack:
  "undo_stack (undo_clear_redo E) =
     (if undo_position E \<ge> undo_group_id E then undo_stack E
      else map_option (takeWhile (\<lambda>e. group_id e \<le> undo_position E)) (undo_stack E))"
  by (simp add: undo_clear_redo_def clear_redo_loop_full split: option.splits)

lemma undo_clear_redo_capacity:
  "undo_stack_capacity (undo_clear_redo E) = undo_stack_capacity E"
  by (simp add: undo_clear_redo_def split: option.splits)

lemma undo_clear_redo_wf: "undo_stack_wf E \<Longrightarrow> undo_stack_wf (undo_clear_redo E)"
proof (cases "undo_stack E")
  case None
  then show ?thesis by (simp add: undo_stack_wf_def undo_clear_redo_stack)
next
  case (Some st)
  assume wf: "undo_stack_wf E"
  have "int (length (takeWhile (\<lambda>e. group_id e \<le> undo_position E) st)) \<le> int (length st)"
    using length_takeWhile_le[of _ st] by simp
  then show ?thesis
    using wf Some
    by (simp add: undo_stack_wf_def undo_clear_redo_stack undo_clear_redo_capacity)
qed

lemma undo_maybe_start_group_stack:
  "undo_stack (undo_maybe_start_group f E) = undo_stack E \<and>
   undo_stack_capacity (undo_maybe_start_group f E) = undo_stack_capacity E \<and>
   row (undo_maybe_start_group f E) = row E"
  by (simp add: undo_maybe_start_group_def undo_start_new_group_def clock_gettime_def Let_def
           split: prod.splits)

lemma undo_log_stack:
  assumes "\<not> undo_logging E"
  shows "\<exists>entry.
     undo_stack (undo_log ty a b c d e f g h E) =
       Some ((case undo_stack (undo_clear_redo E) of
                None \<Rightarrow> []
              | Some st \<Rightarrow>
                  if int (length st) \<ge> undo_stack_capacity E \<and> undo_stack_capacity E \<ge> UNDO_MAX_ENTRIES
                  then drop (nat (c_div (undo_stack_capacity E) 4)) st else st) @ [entry]) \<and>
     undo_stack_capacity (undo_log ty a b c d e f g h E) =
       (case undo_stack (undo_clear_redo E) of
          None \<Rightarrow> 256
        | Some st \<Rightarrow>
            if int (length st) \<ge> undo_stack_capacity E \<and> undo_stack_capacity E < UNDO_MAX_ENTRIES
            then undo_stack_capacity E * 2 else undo_stack_capacity E) \<and>
     group_id entry = undo_group_id (undo_log ty a b c d e f g h E)"
  using assms undo_maybe_start_group_stack[of _ "undo_clear_redo E"]
  by (auto simp: undo_log_def Let_def undo_clear_redo_capacity split: option.splits prod.splits)

lemma undo_log_wf:
  assumes wf: "undo_stack_wf E"
  shows "undo_stack_wf (undo_log ty a b c d e f g h E)"
proof (cases "undo_logging E")
  case True
  then show ?thesis using wf by (simp add: undo_log_def)
next
  case False
  let ?E' = "undo_log ty a b c d e f g h E"
  from undo_log_stack[OF False, of ty a b c d e f g h] obtain entry where
    st: "undo_stack ?E' =
       Some ((case undo_stack (undo_clear_redo E) of
                None \<Rightarrow> []
              | Some st \<Rightarrow>
                  if int (length st) \<ge> undo_stack_capacity E \<and> undo_stack_capacity E \<ge> UNDO_MAX_ENTRIES
                  then drop (nat (c_div (undo_stack_capacity E) 4)) st else st) @ [entry])"
    and cap: "undo_stack_capacity ?E' =
       (case undo_stack (undo_clear_redo E) of
          None \<Rightarrow> 256
        | Some st \<Rightarrow>
            if int (length st) \<ge> undo_stack_capacity E \<and> undo_stack_capacity E < UNDO_MAX_ENTRIES
            then undo_stack_capacity E * 2 else undo_stack_capacity E)"
    by blast
  show ?thesis
  proof (cases "undo_stack (undo_clear_redo E)")
    case None
    then show ?thesis using st cap by (simp add: undo_stack_wf_def undo_capacities_def)
  next
    case (Some s1)
    from undo_clear_redo_wf[OF wf] Some
    have w1: "int (length s1) \<le> undo_stack_capacity E" "undo_stack_capacity E \<in> set undo_capacities"
      by (simp_all add: undo_stack_wf_def undo_clear_redo_capacity)
    from w1(2) consider "undo_stack_capacity E = 16384" | "undo_stack_capacity E \<le> 8192"
      by (auto simp: undo_capacities_def)
    then show ?thesis
    proof cases
      case 1
      then show ?thesis
        using st cap Some w1
        by (auto simp: undo_stack_wf_def undo_capacities_def UNDO_MAX_ENTRIES_def c_div_def)
    next
      case 2
      then have "undo_stack_capacity E * 2 \<in> set undo_capacities"
        using w1(2) by (auto simp: undo_capacities_def)
      moreover have "256 \<le> undo_stack_capacity E"
        using w1(2) by (auto simp: undo_capacities_def)
      ultimately show ?thesis
        using st cap Some w1 2
        by (auto simp: undo_stack_wf_def UNDO_MAX_ENTRIES_def)
    qed
  qed
qed

lemma undo_stack_wf_bound:
  "undo_stack_wf E \<Longrightarrow> undo_stack E = Some st \<Longrightarrow> length st \<le> 16384"
  by (auto simp: undo_stack_wf_def undo_capacities_def)

text \<open>
  Claim C5. What the code does: the undo log never holds more than 16384 entries (the
  capacity starts at 256 and doubles while it is below \<open>UNDO_MAX_ENTRIES = 10000\<close>, and a log
  within its capacity stays within it under \<open>undo_log\<close> and \<open>undo_clear_redo\<close>), and when an
  entry is logged while the log is full at the last capacity, exactly the first 4096
  entries, a quarter of the capacity, are removed. The trim goes by index and does not look
  at the groups, so a group that lies across index 4096 loses a part of its entries, which
  the claim excludes.
\<close>

theorem undo_log_bounded:
  "undo_stack_wf editor_init \<and>
   (undo_stack_wf E \<longrightarrow>
      undo_stack_wf (undo_clear_redo E) \<and>
      undo_stack_wf (undo_log ty a b c d e f g h E) \<and>
      (\<forall>st'. undo_stack (undo_log ty a b c d e f g h E) = Some st' \<longrightarrow> length st' \<le> 16384)) \<and>
   (\<not> undo_logging E \<and> undo_group_id E \<le> undo_position E \<and> undo_stack E = Some st \<and>
    length st = 16384 \<and> undo_stack_capacity E = 16384 \<longrightarrow>
      (\<exists>entry. undo_stack (undo_log ty a b c d e f g h E) = Some (drop 4096 st @ [entry])))"
proof (intro conjI impI allI)
  show "undo_stack_wf editor_init" by (simp add: undo_stack_wf_def editor_init_def)
next
  assume "undo_stack_wf E"
  then show "undo_stack_wf (undo_clear_redo E)" by (rule undo_clear_redo_wf)
next
  assume "undo_stack_wf E"
  then show "undo_stack_wf (undo_log ty a b c d e f g h E)" by (rule undo_log_wf)
next
  fix st'
  assume "undo_stack_wf E" "undo_stack (undo_log ty a b c d e f g h E) = Some st'"
  then show "length st' \<le> 16384"
    using undo_stack_wf_bound[OF undo_log_wf] by blast
next
  assume a: "\<not> undo_logging E \<and> undo_group_id E \<le> undo_position E \<and> undo_stack E = Some st \<and>
    length st = 16384 \<and> undo_stack_capacity E = 16384"
  then have "undo_stack (undo_clear_redo E) = Some st" by (simp add: undo_clear_redo_stack)
  then show "\<exists>entry. undo_stack (undo_log ty a b c d e f g h E) = Some (drop 4096 st @ [entry])"
    using undo_log_stack[of E ty a b c d e f g h] a
    by (auto simp: UNDO_MAX_ENTRIES_def c_div_def)
qed

theorem undo_log_bounded_witness:
  "undo_stack_wf full_log \<and>
   undo_stack_wf (undo_log UNDO_CHAR_INSERT 0 0 0 0 (Some ''x'') 0 0 None full_log) \<and>
   (\<exists>entry. undo_stack (undo_log UNDO_CHAR_INSERT 0 0 0 0 (Some ''x'') 0 0 None full_log)
              = Some (replicate 12288 (typed_entry 1) @ [entry]))"
proof -
  have wf: "undo_stack_wf full_log"
    by (simp add: undo_stack_wf_def full_log_def undo_capacities_def)
  have h: "\<not> undo_logging full_log \<and> undo_group_id full_log \<le> undo_position full_log \<and>
      undo_stack full_log = Some (replicate 16384 (typed_entry 1)) \<and>
      length (replicate 16384 (typed_entry 1)) = 16384 \<and> undo_stack_capacity full_log = 16384"
    by (simp add: full_log_def buffer_of_def editor_init_def)
  from undo_log_bounded[of full_log UNDO_CHAR_INSERT 0 0 0 0 "Some ''x''" 0 0 None
         "replicate 16384 (typed_entry 1)"] wf h
  show ?thesis by simp
qed

theorem undo_trim_splits_group_counterexample:
  "group_size 1 (the (undo_stack full_log)) = 16384 \<and>
   length (the (undo_stack (undo_log UNDO_CHAR_INSERT 0 0 0 0 (Some ''x'') 0 0 None full_log))) = 12289 \<and>
   butlast (the (undo_stack (undo_log UNDO_CHAR_INSERT 0 0 0 0 (Some ''x'') 0 0 None full_log)))
     = drop 4096 (the (undo_stack full_log)) \<and>
   group_size 1 (take 4096 (the (undo_stack full_log))) = 4096 \<and>
   group_size 1 (drop 4096 (the (undo_stack full_log))) = 12288 \<and>
   length (the (undo_stack batch_log)) = 16384 \<and>
   filter (\<lambda>e. group_id e = 2) (the (undo_stack batch_log)) = [batch_entry 1, batch_entry 0] \<and>
   butlast (the (undo_stack (undo_log UNDO_CHAR_INSERT 0 0 0 0 (Some ''x'') 0 0 None batch_log)))
     = batch_entry 0 # replicate 12287 (typed_entry 3) \<and>
   filter (\<lambda>e. group_id e = 2)
     (butlast (the (undo_stack (undo_log UNDO_CHAR_INSERT 0 0 0 0 (Some ''x'') 0 0 None batch_log))))
     = [batch_entry 0]"
proof -
  have s: "undo_stack full_log = Some (replicate 16384 (typed_entry 1))"
    by (simp add: full_log_def)
  have h: "\<not> undo_logging full_log" "undo_group_id full_log \<le> undo_position full_log"
      "undo_stack_capacity full_log = 16384"
    by (simp_all add: full_log_def buffer_of_def editor_init_def)
  have c: "undo_stack (undo_clear_redo full_log) = Some (replicate 16384 (typed_entry 1))"
    using h s by (simp add: undo_clear_redo_stack)
  from undo_log_stack[OF h(1), of UNDO_CHAR_INSERT 0 0 0 0 "Some ''x''" 0 0 None]
  obtain entry where
    "undo_stack (undo_log UNDO_CHAR_INSERT 0 0 0 0 (Some ''x'') 0 0 None full_log)
       = Some (replicate 12288 (typed_entry 1) @ [entry])"
    using c h by (auto simp: UNDO_MAX_ENTRIES_def c_div_def)
  then have 1: "group_size 1 (the (undo_stack full_log)) = 16384 \<and>
   length (the (undo_stack (undo_log UNDO_CHAR_INSERT 0 0 0 0 (Some ''x'') 0 0 None full_log))) = 12289 \<and>
   butlast (the (undo_stack (undo_log UNDO_CHAR_INSERT 0 0 0 0 (Some ''x'') 0 0 None full_log)))
     = drop 4096 (the (undo_stack full_log)) \<and>
   group_size 1 (take 4096 (the (undo_stack full_log))) = 4096 \<and>
   group_size 1 (drop 4096 (the (undo_stack full_log))) = 12288"
    using s by (simp add: group_size_def typed_entry_def)
  define st where "st = replicate 4095 (typed_entry 1) @ [batch_entry 1, batch_entry 0]
                          @ replicate 12287 (typed_entry 3)"
  have sb: "undo_stack batch_log = Some st" by (simp add: batch_log_def st_def)
  have hb: "\<not> undo_logging batch_log" "undo_group_id batch_log \<le> undo_position batch_log"
      "undo_stack_capacity batch_log = 16384"
    by (simp_all add: batch_log_def buffer_of_def editor_init_def)
  have lb: "length st = 16384" by (simp add: st_def)
  have fb: "filter (\<lambda>e. group_id e = 2) st = [batch_entry 1, batch_entry 0]"
    by (simp add: st_def typed_entry_def batch_entry_def)
  have db: "drop 4096 st = batch_entry 0 # replicate 12287 (typed_entry 3)"
    by (simp add: st_def)
  have cb: "undo_stack (undo_clear_redo batch_log) = Some st"
    using hb sb by (simp add: undo_clear_redo_stack)
  from undo_log_stack[OF hb(1), of UNDO_CHAR_INSERT 0 0 0 0 "Some ''x''" 0 0 None]
  obtain entry where "undo_stack (undo_log UNDO_CHAR_INSERT 0 0 0 0 (Some ''x'') 0 0 None batch_log)
       = Some (drop 4096 st @ [entry])"
    using cb hb lb by (auto simp: UNDO_MAX_ENTRIES_def c_div_def)
  then have b: "butlast (the (undo_stack (undo_log UNDO_CHAR_INSERT 0 0 0 0 (Some ''x'') 0 0 None batch_log)))
       = batch_entry 0 # replicate 12287 (typed_entry 3)"
    using db by simp
  have 2: "length (the (undo_stack batch_log)) = 16384 \<and>
     filter (\<lambda>e. group_id e = 2) (the (undo_stack batch_log)) = [batch_entry 1, batch_entry 0]"
    using sb lb fb by simp
  have 3: "filter (\<lambda>e. group_id e = 2)
     (butlast (the (undo_stack (undo_log UNDO_CHAR_INSERT 0 0 0 0 (Some ''x'') 0 0 None batch_log))))
     = [batch_entry 0]"
    unfolding b by (simp add: typed_entry_def batch_entry_def)
  show ?thesis using 1 2 b 3 by blast
qed

section \<open>Redo truncation\<close>

lemma sorted_takeWhile_filter:
  "sorted (map f xs) \<Longrightarrow> takeWhile (\<lambda>e. f e \<le> (p::int)) xs = filter (\<lambda>e. f e \<le> p) xs"
proof (induction xs)
  case Nil
  then show ?case by simp
next
  case (Cons x xs)
  show ?case
  proof (cases "f x \<le> p")
    case True
    then show ?thesis using Cons by simp
  next
    case False
    then have "\<forall>y\<in>set xs. \<not> f y \<le> p" using Cons.prems by auto
    then have "filter (\<lambda>e. f e \<le> p) xs = []" by (simp add: filter_empty_conv)
    then show ?thesis using False by simp
  qed
qed

lemma sorted_map_takeWhile: "sorted (map f xs) \<Longrightarrow> sorted (map f (takeWhile P xs))"
  by (induction xs) (auto dest: set_takeWhileD)

lemma sorted_map_drop: "sorted (map f xs) \<Longrightarrow> sorted (map f (drop n xs))"
  by (simp add: drop_map[symmetric] sorted_wrt_drop)

lemma undo_log_group_id:
  assumes "\<not> undo_logging E" "undo_position E < undo_group_id E" "undo_stack E = Some st"
  shows "undo_group_id (undo_log ty a b c d e f g h E) = undo_position E \<or>
         undo_group_id (undo_log ty a b c d e f g h E) = undo_position E + 1"
  using assms
  by (auto simp: undo_log_def undo_clear_redo_def undo_maybe_start_group_def
        undo_start_new_group_def clock_gettime_def Let_def split: prod.splits option.splits)

text \<open>
  The redo truncation of \<open>undo_log\<close> itself (the single-cursor path): called with the redo
  position below the current group on a monotonic log, it keeps of the old entries only
  those of groups up to the redo position (all of them, unless the log is also trimmed at
  its capacity), and the log stays monotonic with the new entry on top.
\<close>

lemma undo_log_truncates_redo:
  assumes nl: "\<not> undo_logging E" and lt: "undo_position E < undo_group_id E"
    and st: "undo_stack E = Some st" and mono: "groups_monotonic E"
  shows "\<exists>kept entry.
     undo_stack (undo_log ty a b c d e f g h E) = Some (kept @ [entry]) \<and>
     list_all (\<lambda>x. group_id x \<le> undo_position E) kept \<and>
     (\<exists>n. kept = drop n (filter (\<lambda>x. group_id x \<le> undo_position E) st)) \<and>
     (int (length st) < undo_stack_capacity E \<longrightarrow>
        kept = filter (\<lambda>x. group_id x \<le> undo_position E) st) \<and>
     group_id entry = undo_group_id (undo_log ty a b c d e f g h E) \<and>
     groups_monotonic (undo_log ty a b c d e f g h E)"
proof -
  let ?E' = "undo_log ty a b c d e f g h E"
  let ?P = "\<lambda>x. group_id x \<le> undo_position E"
  from mono st have srt: "sorted (map group_id st)" by (simp add: groups_monotonic_def)
  have c: "undo_stack (undo_clear_redo E) = Some (filter ?P st)"
    using lt st srt by (simp add: undo_clear_redo_stack sorted_takeWhile_filter)
  from undo_log_stack[OF nl, of ty a b c d e f g h] c obtain entry where
    s': "undo_stack ?E' =
       Some ((if int (length (filter ?P st)) \<ge> undo_stack_capacity E \<and> undo_stack_capacity E \<ge> UNDO_MAX_ENTRIES
              then drop (nat (c_div (undo_stack_capacity E) 4)) (filter ?P st) else filter ?P st) @ [entry])"
    and gid: "group_id entry = undo_group_id ?E'"
    by auto
  define kept where "kept =
      (if int (length (filter ?P st)) \<ge> undo_stack_capacity E \<and> undo_stack_capacity E \<ge> UNDO_MAX_ENTRIES
       then drop (nat (c_div (undo_stack_capacity E) 4)) (filter ?P st) else filter ?P st)"
  have k1: "\<exists>n. kept = drop n (filter ?P st)"
  proof (cases "int (length (filter ?P st)) \<ge> undo_stack_capacity E \<and> undo_stack_capacity E \<ge> UNDO_MAX_ENTRIES")
    case True
    then show ?thesis unfolding kept_def by auto
  next
    case False
    then have "kept = filter ?P st" unfolding kept_def by (simp only: if_False)
    then have "kept = drop 0 (filter ?P st)" by simp
    then show ?thesis by blast
  qed
  then obtain n where n: "kept = drop n (filter ?P st)" by blast
  have k2: "list_all ?P kept"
    unfolding n list_all_iff using in_set_dropD by fastforce
  have "int (length (filter ?P st)) \<le> int (length st)" by simp
  then have "int (length st) < undo_stack_capacity E \<Longrightarrow>
      \<not> undo_stack_capacity E \<le> int (length (filter ?P st))" by linarith
  then have k3: "int (length st) < undo_stack_capacity E \<longrightarrow> kept = filter ?P st"
    unfolding kept_def by simp
  have g: "undo_position E \<le> undo_group_id ?E'"
    using undo_log_group_id[OF nl lt st, of ty a b c d e f g h] by auto
  have "sorted (map group_id (filter ?P st))"
    using srt by (simp add: sorted_filter)
  then have "sorted (map group_id kept)" unfolding n by (rule sorted_map_drop)
  moreover have "\<forall>x\<in>set kept. group_id x \<le> group_id entry"
    using k2 g gid by (auto simp: list_all_iff)
  ultimately have "sorted (map group_id (kept @ [entry]))"
    by (simp add: sorted_append)
  moreover have "list_all (\<lambda>x. group_id x \<le> undo_group_id ?E') (kept @ [entry])"
    using k2 g gid by (auto simp: list_all_iff)
  ultimately have m: "groups_monotonic ?E'"
    using s' by (simp add: groups_monotonic_def kept_def)
  show ?thesis
    using s' k1 k2 k3 gid m unfolding kept_def by blast
qed

text \<open>
  Claim C6 at a multi-cursor edit. In the buffer \<open>"ab"\<close>, \<open>"cd"\<close> the user types \<open>z\<close> (group
  1), adds a secondary cursor on the next line, and undoes: the buffer is as at the start,
  the redo position is 0 and the log still holds the entry of group 1. Typing \<open>x\<close> now is a
  multi-cursor insert: it starts its group before it logs, so \<open>undo_clear_redo\<close> finds the
  redo position level with the current group and discards nothing. The entry of group 1,
  which lies above the redo position 0 of the moment of the edit, stays in the log under
  the two entries of group 2, and two undos then delete the \<open>a\<close> of the first row, a
  character that no edit of the session inserted. The same edit with a single cursor
  discards the entry.
\<close>

theorem multicursor_edit_keeps_redo_entries:
  "map_option log_view undone_with_cursor = Some ([''ab'', ''cd''], 0, 1, Some [(1, 0, Some ''z'')]) \<and>
   map_option log_view (Option.bind undone_with_cursor (editor_insert_char CHR ''x''))
     = Some ([''xab'', ''cxd''], 2, 2,
              Some [(1, 0, Some ''z''), (2, 1, Some ''x''), (2, 0, Some ''x'')]) \<and>
   map_option (\<lambda>E. map chars (row E))
     (Option.bind (Option.bind (Option.bind undone_with_cursor (editor_insert_char CHR ''x''))
        editor_undo) editor_undo) = Some [''b'', ''cd''] \<and>
   map_option log_view
     (Option.bind (Option.bind (editor_insert_char CHR ''z'' (buffer_of [''ab'', ''cd''])) editor_undo)
        (editor_insert_char CHR ''x''))
     = Some ([''xab'', ''cd''], 1, 1, Some [(1, 0, Some ''x'')])"
  by code_simp

theorem multicursor_edit_keeps_redo_entries_witness:
  "map_option (\<lambda>E. map chars (row E))
     (Option.bind (Option.bind (Option.bind undone_with_cursor (editor_insert_char CHR ''x''))
        editor_undo) editor_undo) \<noteq> Some [''ab'', ''cd'']"
proof -
  have a: "map_option (\<lambda>E. map chars (row E))
     (Option.bind (Option.bind (Option.bind undone_with_cursor (editor_insert_char CHR ''x''))
        editor_undo) editor_undo) = Some [''b'', ''cd'']"
    using multicursor_edit_keeps_redo_entries by blast
  show ?thesis unfolding a by simp
qed

section \<open>The quit key on a dirty buffer\<close>

lemma ctrl_q: "CTRL_KEY CHR ''q'' = 17"
  by (simp add: CTRL_KEY_def)

text \<open>
  Claim C7 at the quit key. With a dirty buffer and a fresh counter
  (\<open>quit_times = MITER_QUIT_TIMES = 3\<close>), one, two and three consecutive presses of Ctrl-Q leave
  the editor running, with the counter at 2, 1 and 0; the editor exits on the fourth press.
  A key handled by the \<open>switch\<close> between two presses sets the counter back to 3.
\<close>

theorem quit_needs_four_presses:
  "press_keys menu_key command [17] dirty_session = Running (dirty_session\<lparr>quit_times := 2\<rparr>) \<and>
   press_keys menu_key command [17, 17] dirty_session = Running (dirty_session\<lparr>quit_times := 1\<rparr>) \<and>
   press_keys menu_key command [17, 17, 17] dirty_session
     = Running (dirty_session\<lparr>quit_times := 0\<rparr>) \<and>
   press_keys menu_key command [17, 17, 17, 17] dirty_session = Exited \<and>
   press_keys menu_key command [17, 17, 97] dirty_session
     = Running ((command 97 (dirty_session\<lparr>quit_times := 1\<rparr>))\<lparr>quit_times := 3\<rparr>)"
  by (simp add: editor_process_keypress_def dirty_session_def ctrl_q MITER_QUIT_TIMES_def
        CHAR_ESCAPE_def F10_KEY_def HOME_KEY_def Let_def)

section \<open>Search index: what is recorded\<close>










section \<open>Forward delete at the end of the buffer\<close>




section \<open>Adding a secondary cursor\<close>

lemma cursor_at_position_iff:
  "cursor_at_position cs ln col \<longleftrightarrow> (\<exists>c\<in>set cs. line c = ln \<and> column c = col)"
  by (induction cs) auto

text \<open>
  Claim C10, as the code has it. When the primary cursor or a secondary cursor already stands at
  \<open>(line, column)\<close>, \<open>multicursor_add\<close> returns 0 and leaves the state unchanged. Otherwise,
  when the cursor array has room or can be grown, it appends exactly one secondary cursor at
  \<open>(line, column)\<close> and returns 1 (when growing fails it returns 0 and adds nothing). So
  whenever it returns 1 the cursor added stands where no other cursor stood.
\<close>

theorem multicursor_add_no_duplicate:
  "((cursor_y E = ln \<and> cursor_x E = col) \<or> (\<exists>c\<in>set (cursors E). line c = ln \<and> column c = col)
      \<longrightarrow> multicursor_add ln col E = (0, E)) \<and>
   (\<not> (cursor_y E = ln \<and> cursor_x E = col) \<and>
    \<not> (\<exists>c\<in>set (cursors E). line c = ln \<and> column c = col) \<and>
    (length (cursors E) < cursor_capacity E \<or> alloc_ok E (alloc_calls E))
      \<longrightarrow> fst (multicursor_add ln col E) = 1 \<and>
          cursors (snd (multicursor_add ln col E)) = cursors E @ [secondary_at ln col] \<and>
          cursor_y (snd (multicursor_add ln col E)) = cursor_y E \<and>
          cursor_x (snd (multicursor_add ln col E)) = cursor_x E) \<and>
   (length (cursors E) \<ge> cursor_capacity E \<and> \<not> alloc_ok E (alloc_calls E)
      \<longrightarrow> fst (multicursor_add ln col E) = 0 \<and>
          cursors (snd (multicursor_add ln col E)) = cursors E) \<and>
   (fst (multicursor_add ln col E) = 1
      \<longrightarrow> \<not> (cursor_y E = ln \<and> cursor_x E = col) \<and>
          \<not> (\<exists>c\<in>set (cursors E). line c = ln \<and> column c = col) \<and>
          cursors (snd (multicursor_add ln col E)) = cursors E @ [secondary_at ln col])"
  by (auto simp: multicursor_add_def cursor_at_position_iff checked_alloc_def secondary_at_def
           Let_def split: prod.splits if_splits)

theorem multicursor_add_no_duplicate_witness:
  "multicursor_add 0 0 (buffer_of [''foo'', ''bar'']) = (0, buffer_of [''foo'', ''bar'']) \<and>
   fst (multicursor_add 1 0 (buffer_of [''foo'', ''bar''])) = 1 \<and>
   cursors (snd (multicursor_add 1 0 (buffer_of [''foo'', ''bar'']))) = [secondary_at 1 0] \<and>
   fst (multicursor_add 1 0 (snd (multicursor_add 1 0 (buffer_of [''foo'', ''bar''])))) = 0"
proof -
  let ?E = "buffer_of [''foo'', ''bar'']"
  let ?E1 = "snd (multicursor_add 1 0 ?E)"
  have p: "cursor_y ?E = 0" "cursor_x ?E = 0" "cursors ?E = []" "alloc_ok ?E (alloc_calls ?E)"
    by (simp_all add: buffer_of_def editor_init_def)
  have a: "multicursor_add 0 0 ?E = (0, ?E)"
    using multicursor_add_no_duplicate[of ?E 0 0] p by simp
  have b: "fst (multicursor_add 1 0 ?E) = 1 \<and> cursors ?E1 = cursors ?E @ [secondary_at 1 0]"
    using multicursor_add_no_duplicate[of ?E 1 0] p by simp
  then have "\<exists>c\<in>set (cursors ?E1). line c = 1 \<and> column c = 0"
    by (simp add: p secondary_at_def)
  then have c: "multicursor_add 1 0 ?E1 = (0, ?E1)"
    using multicursor_add_no_duplicate[of ?E1 1 0] by blast
  show ?thesis using a b c p by simp
qed

theorem multicursor_add_growth_failure_counterexample:
  "(cursor_y out_of_memory, cursor_x out_of_memory) \<noteq> (1, 0) \<and>
   list_all (\<lambda>c. (line c, column c) \<noteq> (1, 0)) (cursors out_of_memory) \<and>
   fst (multicursor_add 1 0 out_of_memory) = 0 \<and>
   cursors (snd (multicursor_add 1 0 out_of_memory)) = cursors out_of_memory \<and>
   cursors (snd (multicursor_add 1 0 out_of_memory)) \<noteq> cursors out_of_memory @ [secondary_at 1 0]"
  by (simp add: out_of_memory_def buffer_of_def editor_init_def multicursor_add_def
        checked_alloc_def)

end
